theory Spec2Isabelle
  imports Complex_Main "HOL-Library.Word"
begin

section \<open>JavaScript values\<close>

text \<open>
  A JavaScript number is \<open>NaN\<close>, an infinity or a finite value. Finite doubles are
  real numbers, so a finite number is modelled by the real it denotes. Comparisons of
  doubles are exact, hence \<open>Math.min\<close> and \<open>Math.max\<close> are defined here; the rounding
  arithmetic of doubles belongs to the platform (see \<open>platform\<close> below).
\<close>

datatype jsnum = NaN | NegInf | Fin real | PosInf

fun js_lt :: "jsnum \<Rightarrow> jsnum \<Rightarrow> bool" where
  "js_lt (Fin a) (Fin b) = (a < b)"
| "js_lt NegInf (Fin b) = True"
| "js_lt NegInf PosInf = True"
| "js_lt (Fin a) PosInf = True"
| "js_lt _ _ = False"

definition Math_min :: "jsnum \<Rightarrow> jsnum \<Rightarrow> jsnum" where
  "Math_min a b = (if a = NaN \<or> b = NaN then NaN else if js_lt b a then b else a)"

definition Math_max :: "jsnum \<Rightarrow> jsnum \<Rightarrow> jsnum" where
  "Math_max a b = (if a = NaN \<or> b = NaN then NaN else if js_lt a b then b else a)"

text \<open>
  The exceptions a call of the engine can end with: those of the language and the
  platform, and whatever the caller's own code raises (\<open>CallerError\<close>).
\<close>

datatype error = TypeError | IndexSizeError | InvalidStateError | CallerError

text \<open>
  The values a caller can hand to \<open>setTool\<close>. A symbol carries its description. An
  object is modelled by what converting it to a string does: \<open>None\<close> when its
  \<open>toString\<close> returns a string, \<open>Some err\<close> when the conversion raises. Objects whose
  conversion reaches back into the engine are not part of the model.
\<close>

datatype jsvalue =
    JSUndefined
  | JSNull
  | JSBoolean bool
  | JSNumber jsnum
  | JSString string
  | JSSymbol string
  | JSObject "error option"

text \<open>
  \<open>ToString\<close>, as a template literal applies it, reduced to its outcome: the exception
  it raises, if any. A symbol cannot be converted (\<open>TypeError\<close>); the primitive values
  always can.
\<close>

fun ToString_raises :: "jsvalue \<Rightarrow> error option" where
  "ToString_raises (JSSymbol d) = Some TypeError"
| "ToString_raises (JSObject r) = r"
| "ToString_raises _ = None"

section \<open>The pixel backend\<close>

text \<open>
  A bitmap (the buffer of a canvas, or an \<open>ImageData\<close> snapshot of it) has a width, a
  height and rows of RGBA pixels, each channel a byte. Pixels are kept as written:
  the loss a backend with premultiplied alpha adds on partly transparent pixels is not
  modelled.
\<close>

datatype pixel = RGBA (red: "8 word") (green: "8 word") (blue: "8 word") (alpha: "8 word")

record image =
  width :: nat
  height :: nat
  rows :: "pixel list list"

definition transparent :: pixel where
  "transparent = RGBA 0 0 0 0"

definition white :: pixel where
  "white = RGBA 255 255 255 255"

definition filled :: "nat \<Rightarrow> nat \<Rightarrow> pixel \<Rightarrow> image" where
  "filled w h p = \<lparr>width = w, height = h, rows = replicate h (replicate w p)\<rparr>"

text \<open>A canvas whose width or height is assigned is cleared to transparent black.\<close>

definition blank :: "nat \<Rightarrow> nat \<Rightarrow> image" where
  "blank w h = filled w h transparent"

definition pixel_at :: "image \<Rightarrow> nat \<Rightarrow> nat \<Rightarrow> pixel" where
  "pixel_at b x y =
     (if y < length (rows b) \<and> x < length (rows b ! y) then rows b ! y ! x else transparent)"

text \<open>The bitmap has a pixel at column \<open>x\<close> of row \<open>y\<close>.\<close>

definition has_pixel :: "image \<Rightarrow> nat \<Rightarrow> nat \<Rightarrow> bool" where
  "has_pixel b x y = (y < length (rows b) \<and> x < length (rows b ! y))"

definition wf_image :: "image \<Rightarrow> bool" where
  "wf_image b = (length (rows b) = height b \<and> list_all (\<lambda>r. length r = width b) (rows b))"

text \<open>
  \<open>overlay f src dst\<close> writes \<open>src\<close> over the front of \<open>dst\<close>; what lies beyond
  \<open>dst\<close> is cropped, what \<open>src\<close> does not reach keeps its value.
\<close>

fun overlay :: "('a \<Rightarrow> 'a \<Rightarrow> 'a) \<Rightarrow> 'a list \<Rightarrow> 'a list \<Rightarrow> 'a list" where
  "overlay f (s # ss) (d # ds) = f s d # overlay f ss ds"
| "overlay f [] ds = ds"
| "overlay f ss [] = []"

text \<open>
  \<open>getImageData(0, 0, canvas.width, canvas.height)\<close>, the only form the engine calls:
  a copy of the whole buffer. The platform raises \<open>IndexSizeError\<close> when the requested
  width or height is zero.
\<close>

definition getImageData :: "image \<Rightarrow> error + image" where
  "getImageData b = (if width b = 0 \<or> height b = 0 then Inl IndexSizeError else Inr b)"

text \<open>\<open>putImageData(imageData, 0, 0)\<close>: the snapshot replaces the pixels it covers.\<close>

definition putImageData :: "image \<Rightarrow> image \<Rightarrow> image" where
  "putImageData src dst = dst\<lparr>rows := overlay (overlay (\<lambda>s d. s)) (rows src) (rows dst)\<rparr>"

text \<open>\<open>clearRect(0, 0, canvas.width, canvas.height)\<close>: the whole buffer becomes transparent.\<close>

definition clearRect :: "image \<Rightarrow> image" where
  "clearRect b = blank (width b) (height b)"

datatype path_cmd =
    MoveTo jsnum jsnum
  | LineTo jsnum jsnum
  | Rect jsnum jsnum jsnum jsnum
  | Arc jsnum jsnum jsnum jsnum jsnum

text \<open>
  The drawing state of a 2D context. A style is held as the string that was assigned
  to it.
\<close>

record context2d =
  lineCap :: string
  lineJoin :: string
  strokeStyle :: string
  lineWidth :: jsnum
  fillStyle :: string
  path :: "path_cmd list"

text \<open>The state of a context after its canvas was resized (the platform's defaults).\<close>

definition default_context :: context2d where
  "default_context =
     \<lparr>lineCap = ''butt'', lineJoin = ''miter'', strokeStyle = ''#000000'',
      lineWidth = Fin 1, fillStyle = ''#000000'', path = []\<rparr>"

text \<open>Assigning \<open>ctx.lineWidth\<close>: zero, negative, infinite and NaN values are ignored.\<close>

definition set_lineWidth :: "jsnum \<Rightarrow> context2d \<Rightarrow> context2d" where
  "set_lineWidth v c =
     (case v of Fin r \<Rightarrow> (if 0 < r then c\<lparr>lineWidth := v\<rparr> else c) | _ \<Rightarrow> c)"

text \<open>
  What the engine takes from its host and does not implement: the rasteriser behind
  \<open>ctx.stroke()\<close> (the new value of each pixel, given the context and the buffer), the
  blending of a partly transparent pixel over a visible one, the parsing of colours
  (which strings are colours, and which pixel a colour paints), the arithmetic of
  doubles and the image encoder.
\<close>

record platform =
  stroke :: "context2d \<Rightarrow> image \<Rightarrow> nat \<Rightarrow> nat \<Rightarrow> pixel"
  blend :: "pixel \<Rightarrow> pixel \<Rightarrow> pixel"
  is_color :: "string \<Rightarrow> bool"
  parse_color :: "string \<Rightarrow> pixel"
  num_add :: "jsnum \<Rightarrow> jsnum \<Rightarrow> jsnum"
  num_sub :: "jsnum \<Rightarrow> jsnum \<Rightarrow> jsnum"
  num_mul :: "jsnum \<Rightarrow> jsnum \<Rightarrow> jsnum"
  num_div :: "jsnum \<Rightarrow> jsnum \<Rightarrow> jsnum"
  Math_sqrt :: "jsnum \<Rightarrow> jsnum"
  Math_pow :: "jsnum \<Rightarrow> jsnum \<Rightarrow> jsnum"
  Math_PI :: jsnum
  toDataURL :: "string \<Rightarrow> image \<Rightarrow> string"

text \<open>
  The two colours the source itself writes are colours on every platform; for any
  other string the platform decides.
\<close>

definition css_valid :: "platform \<Rightarrow> string \<Rightarrow> bool" where
  "css_valid P c = (c = ''#ffffff'' \<or> c = ''#000000'' \<or> is_color P c)"

text \<open>Assigning \<open>ctx.strokeStyle\<close>: a string that is not a colour is ignored.\<close>

definition set_strokeStyle :: "platform \<Rightarrow> string \<Rightarrow> context2d \<Rightarrow> context2d" where
  "set_strokeStyle P v c = (if css_valid P v then c\<lparr>strokeStyle := v\<rparr> else c)"

definition css_pixel :: "platform \<Rightarrow> string \<Rightarrow> pixel" where
  "css_pixel P c =
     (if c = ''#ffffff'' then white
      else if c = ''#000000'' then RGBA 0 0 0 255
      else parse_color P c)"

text \<open>
  Source-over compositing of one pixel: an opaque source, or any source over a cleared
  pixel, is the result; everything else is the platform's blend.
\<close>

definition source_over :: "platform \<Rightarrow> pixel \<Rightarrow> pixel \<Rightarrow> pixel" where
  "source_over P s d = (if alpha s = 255 \<or> alpha d = 0 then s else blend P s d)"

text \<open>\<open>fillRect(0, 0, canvas.width, canvas.height)\<close> with the context's fill style.\<close>

definition fillRect :: "platform \<Rightarrow> context2d \<Rightarrow> image \<Rightarrow> image" where
  "fillRect P c b =
     \<lparr>width = width b, height = height b,
      rows = map (\<lambda>y. map (\<lambda>x. source_over P (css_pixel P (fillStyle c)) (pixel_at b x y))
                   [0..<width b]) [0..<height b]\<rparr>"

text \<open>
  \<open>drawImage(source, 0, 0)\<close> with a canvas as the source: composited over the target at
  the origin. A source canvas of width or height zero raises \<open>InvalidStateError\<close>.
\<close>

definition drawImage :: "platform \<Rightarrow> image \<Rightarrow> image \<Rightarrow> error + image" where
  "drawImage P src dst =
     (if width src = 0 \<or> height src = 0 then Inl InvalidStateError
      else Inr (dst\<lparr>rows := overlay (overlay (source_over P)) (rows src) (rows dst)\<rparr>))"

text \<open>\<open>ctx.stroke()\<close>: the backend repaints the buffer, whose dimensions do not change.\<close>

definition paint :: "platform \<Rightarrow> context2d \<Rightarrow> image \<Rightarrow> image" where
  "paint P c b =
     \<lparr>width = width b, height = height b,
      rows = map (\<lambda>y. map (\<lambda>x. stroke P c b x y) [0..<width b]) [0..<height b]\<rparr>"

section \<open>Events\<close>

record touch_point =
  touchX :: jsnum
  touchY :: jsnum

text \<open>
  A pointer or touch event as a handler sees it, together with the bounding rectangle
  \<open>canvas.getBoundingClientRect()\<close> returns when the event is delivered.
\<close>

record dom_event =
  etype :: string
  clientX :: jsnum
  clientY :: jsnum
  touches :: "touch_point list"
  changedTouches :: "touch_point list"
  rect_left :: jsnum
  rect_top :: jsnum
  rect_width :: jsnum
  rect_height :: jsnum

section \<open>The drawing engine\<close>

record engine =
  canvas :: image
  ctx :: context2d
  currentTool :: string
  currentColor :: string
  strokeWidth :: jsnum
  isDrawing :: bool
  startX :: jsnum
  startY :: jsnum
  lastX :: jsnum
  lastY :: jsnum
  undoStack :: "image list"
  redoStack :: "image list"
  maxUndoSteps :: nat
  tempCanvas :: image

text \<open>
  A method returns its completion (\<open>Inl\<close> the exception raised, \<open>Inr\<close> the value
  returned) and the engine as the call leaves it: an exception does not undo the
  assignments made before it.
\<close>

type_synonym 'a completion = "error + 'a"

text \<open>Assigning a canvas dimension clears the buffer and resets the context.\<close>

definition set_canvas_width :: "nat \<Rightarrow> engine \<Rightarrow> engine" where
  "set_canvas_width w s = s\<lparr>canvas := blank w (height (canvas s)), ctx := default_context\<rparr>"

definition set_canvas_height :: "nat \<Rightarrow> engine \<Rightarrow> engine" where
  "set_canvas_height h s = s\<lparr>canvas := blank (width (canvas s)) h, ctx := default_context\<rparr>"

definition set_temp_width :: "nat \<Rightarrow> engine \<Rightarrow> engine" where
  "set_temp_width w s = s\<lparr>tempCanvas := blank w (height (tempCanvas s))\<rparr>"

definition set_temp_height :: "nat \<Rightarrow> engine \<Rightarrow> engine" where
  "set_temp_height h s = s\<lparr>tempCanvas := blank (width (tempCanvas s)) h\<rparr>"

definition applyContextSettings :: "platform \<Rightarrow> engine \<Rightarrow> engine" where
  "applyContextSettings P s =
     s\<lparr>ctx := set_lineWidth (strokeWidth s)
                (set_strokeStyle P (currentColor s)
                   ((ctx s)\<lparr>lineCap := ''round'', lineJoin := ''round''\<rparr>))\<rparr>"

definition initializeCanvas :: "platform \<Rightarrow> nat \<Rightarrow> nat \<Rightarrow> engine \<Rightarrow> engine" where
  "initializeCanvas P offsetWidth offsetHeight s =
     (let s1 = set_canvas_height offsetHeight (set_canvas_width offsetWidth s);
          s2 = set_temp_height (height (canvas s1)) (set_temp_width (width (canvas s1)) s1);
          s3 = applyContextSettings P s2;
          c = (ctx s3)\<lparr>fillStyle := ''#ffffff''\<rparr>
      in s3\<lparr>ctx := c, canvas := fillRect P c (canvas s3)\<rparr>)"

definition getCoordinates :: "platform \<Rightarrow> engine \<Rightarrow> dom_event \<Rightarrow> (jsnum \<times> jsnum) completion" where
  "getCoordinates P s e =
     (let scaleX = num_div P (Fin (real (width (canvas s)))) (rect_width e);
          scaleY = num_div P (Fin (real (height (canvas s)))) (rect_height e)
      in if take 5 (etype e) = ''touch'' then
           (case (case touches e of t # _ \<Rightarrow> Some t
                  | [] \<Rightarrow> (case changedTouches e of t # _ \<Rightarrow> Some t | [] \<Rightarrow> None)) of
              None \<Rightarrow> Inl TypeError
            | Some t \<Rightarrow>
                Inr (num_mul P (num_sub P (touchX t) (rect_left e)) scaleX,
                     num_mul P (num_sub P (touchY t) (rect_top e)) scaleY))
         else Inr (num_mul P (num_sub P (clientX e) (rect_left e)) scaleX,
                   num_mul P (num_sub P (clientY e) (rect_top e)) scaleY))"

definition saveState :: "engine \<Rightarrow> unit completion \<times> engine" where
  "saveState s =
     (case getImageData (canvas s) of
        Inl err \<Rightarrow> (Inl err, s)
      | Inr imageData \<Rightarrow>
          (let pushed = undoStack s @ [imageData];
               kept = (if length pushed > maxUndoSteps s then tl pushed else pushed)
           in (Inr (), s\<lparr>undoStack := kept, redoStack := []\<rparr>)))"

text \<open>
  \<open>_restoreState\<close> receives what an array read or a \<open>pop\<close> produced: \<open>None\<close> is
  \<open>undefined\<close>, which \<open>putImageData\<close> rejects with a \<open>TypeError\<close>.
\<close>

definition restoreState :: "platform \<Rightarrow> image option \<Rightarrow> engine \<Rightarrow> unit completion \<times> engine" where
  "restoreState P imageData s =
     (case imageData of
        None \<Rightarrow> (Inl TypeError, s)
      | Some img \<Rightarrow> (Inr (), applyContextSettings P (s\<lparr>canvas := putImageData img (canvas s)\<rparr>)))"

text \<open>The path calls of the context, recorded in the order the engine makes them.\<close>

definition beginPath :: "context2d \<Rightarrow> context2d" where
  "beginPath c = c\<lparr>path := []\<rparr>"

definition add_to_path :: "path_cmd \<Rightarrow> context2d \<Rightarrow> context2d" where
  "add_to_path cmd c = c\<lparr>path := path c @ [cmd]\<rparr>"

definition handleStart :: "platform \<Rightarrow> dom_event \<Rightarrow> engine \<Rightarrow> unit completion \<times> engine" where
  "handleStart P e s =
     (let s1 = s\<lparr>isDrawing := True\<rparr> in
      case getCoordinates P s1 e of
        Inl err \<Rightarrow> (Inl err, s1)
      | Inr (x, y) \<Rightarrow>
          (let s2 = s1\<lparr>startX := x, startY := y, lastX := x, lastY := y\<rparr> in
           if currentTool s2 = ''freehand'' then
             (Inr (), s2\<lparr>ctx := add_to_path (MoveTo x y) (beginPath (ctx s2))\<rparr>)
           else
             (let s3 = s2\<lparr>tempCanvas := clearRect (tempCanvas s2)\<rparr> in
              case drawImage P (canvas s3) (tempCanvas s3) of
                Inl err \<Rightarrow> (Inl err, s3)
              | Inr t \<Rightarrow> (Inr (), s3\<lparr>tempCanvas := t\<rparr>))))"

definition drawFreehand :: "platform \<Rightarrow> jsnum \<Rightarrow> jsnum \<Rightarrow> engine \<Rightarrow> engine" where
  "drawFreehand P x y s =
     (let c = add_to_path (LineTo x y) (ctx s) in s\<lparr>ctx := c, canvas := paint P c (canvas s)\<rparr>)"

definition drawShapePath :: "platform \<Rightarrow> jsnum \<Rightarrow> jsnum \<Rightarrow> jsnum \<Rightarrow> jsnum \<Rightarrow> engine \<Rightarrow> engine" where
  "drawShapePath P x1 y1 x2 y2 s =
     (if currentTool s = ''rectangle'' then
        s\<lparr>ctx := add_to_path (Rect x1 y1 (num_sub P x2 x1) (num_sub P y2 y1)) (ctx s)\<rparr>
      else if currentTool s = ''circle'' then
        (let radius = Math_sqrt P (num_add P (Math_pow P (num_sub P x2 x1) (Fin 2))
                                             (Math_pow P (num_sub P y2 y1) (Fin 2)))
         in s\<lparr>ctx := add_to_path (Arc x1 y1 radius (Fin 0) (num_mul P (Fin 2) (Math_PI P))) (ctx s)\<rparr>)
      else if currentTool s = ''line'' then
        s\<lparr>ctx := add_to_path (LineTo x2 y2) (add_to_path (MoveTo x1 y1) (ctx s))\<rparr>
      else s)"

text \<open>\<open>_drawShapePreview\<close> and \<open>_drawShape\<close> have the same body in the source.\<close>

definition drawShapePreview :: "platform \<Rightarrow> jsnum \<Rightarrow> jsnum \<Rightarrow> engine \<Rightarrow> unit completion \<times> engine" where
  "drawShapePreview P x y s =
     (let s1 = s\<lparr>canvas := clearRect (canvas s)\<rparr> in
      case drawImage P (tempCanvas s1) (canvas s1) of
        Inl err \<Rightarrow> (Inl err, s1)
      | Inr b \<Rightarrow>
          (let s2 = s1\<lparr>canvas := b, ctx := beginPath (ctx s1)\<rparr>;
               s3 = drawShapePath P (startX s2) (startY s2) x y s2
           in (Inr (), s3\<lparr>canvas := paint P (ctx s3) (canvas s3)\<rparr>)))"

definition drawShape :: "platform \<Rightarrow> jsnum \<Rightarrow> jsnum \<Rightarrow> engine \<Rightarrow> unit completion \<times> engine" where
  "drawShape P x y s =
     (let s1 = s\<lparr>canvas := clearRect (canvas s)\<rparr> in
      case drawImage P (tempCanvas s1) (canvas s1) of
        Inl err \<Rightarrow> (Inl err, s1)
      | Inr b \<Rightarrow>
          (let s2 = s1\<lparr>canvas := b, ctx := beginPath (ctx s1)\<rparr>;
               s3 = drawShapePath P (startX s2) (startY s2) x y s2
           in (Inr (), s3\<lparr>canvas := paint P (ctx s3) (canvas s3)\<rparr>)))"

definition handleMove :: "platform \<Rightarrow> dom_event \<Rightarrow> engine \<Rightarrow> unit completion \<times> engine" where
  "handleMove P e s =
     (if \<not> isDrawing s then (Inr (), s)
      else
        (case getCoordinates P s e of
           Inl err \<Rightarrow> (Inl err, s)
         | Inr (x, y) \<Rightarrow>
             (case (if currentTool s = ''freehand'' then (Inr (), drawFreehand P x y s)
                    else drawShapePreview P x y s) of
                (Inl err, s1) \<Rightarrow> (Inl err, s1)
              | (Inr u, s1) \<Rightarrow> (Inr (), s1\<lparr>lastX := x, lastY := y\<rparr>))))"

definition handleEnd :: "platform \<Rightarrow> dom_event \<Rightarrow> engine \<Rightarrow> unit completion \<times> engine" where
  "handleEnd P e s =
     (if \<not> isDrawing s then (Inr (), s)
      else
        (case (if currentTool s \<noteq> ''freehand'' then
                 (case getCoordinates P s e of
                    Inl err \<Rightarrow> (Inl err, s)
                  | Inr (x, y) \<Rightarrow> drawShape P x y s)
               else (Inr (), s)) of
           (Inl err, s1) \<Rightarrow> (Inl err, s1)
         | (Inr u, s1) \<Rightarrow> saveState (s1\<lparr>isDrawing := False\<rparr>)))"

text \<open>
  \<open>_handleResize\<close> reads the canvas's layout size (\<open>offsetWidth\<close>, \<open>offsetHeight\<close>),
  which the host supplies.
\<close>

definition handleResize :: "platform \<Rightarrow> nat \<Rightarrow> nat \<Rightarrow> engine \<Rightarrow> unit completion \<times> engine" where
  "handleResize P offsetWidth offsetHeight s =
     (case getImageData (canvas s) of
        Inl err \<Rightarrow> (Inl err, s)
      | Inr imageData \<Rightarrow>
          (let s1 = set_canvas_height offsetHeight (set_canvas_width offsetWidth s);
               s2 = set_temp_height (height (canvas s1)) (set_temp_width (width (canvas s1)) s1);
               s3 = s2\<lparr>canvas := putImageData imageData (canvas s2)\<rparr>
           in (Inr (), applyContextSettings P s3)))"

subsection \<open>The public methods\<close>

definition validTools :: "string list" where
  "validTools = [''freehand'', ''rectangle'', ''circle'', ''line'']"

text \<open>
  The warning of \<open>setTool\<close>: building its text converts the argument to a string,
  which can raise; the text itself goes to the console, which is no part of the
  engine's state.
\<close>

definition warn_invalid_tool :: "jsvalue \<Rightarrow> engine \<Rightarrow> unit completion \<times> engine" where
  "warn_invalid_tool tool s =
     (case ToString_raises tool of Some err \<Rightarrow> (Inl err, s) | None \<Rightarrow> (Inr (), s))"

text \<open>
  \<open>includes\<close> compares with strict equality, so only a string can be found in
  \<open>validTools\<close>.
\<close>

definition setTool :: "jsvalue \<Rightarrow> engine \<Rightarrow> unit completion \<times> engine" where
  "setTool tool s =
     (case tool of
        JSString t \<Rightarrow>
          (if t \<in> set validTools then (Inr (), s\<lparr>currentTool := t\<rparr>)
           else warn_invalid_tool tool s)
      | _ \<Rightarrow> warn_invalid_tool tool s)"

definition setColor :: "platform \<Rightarrow> string \<Rightarrow> engine \<Rightarrow> engine" where
  "setColor P color s = s\<lparr>currentColor := color, ctx := set_strokeStyle P color (ctx s)\<rparr>"

definition setStrokeWidth :: "jsnum \<Rightarrow> engine \<Rightarrow> engine" where
  "setStrokeWidth w s =
     (let s1 = s\<lparr>strokeWidth := Math_max (Fin 1) (Math_min w (Fin 50))\<rparr>
      in s1\<lparr>ctx := set_lineWidth (strokeWidth s1) (ctx s1)\<rparr>)"

text \<open>\<open>pop()\<close> and the read of the last element give \<open>undefined\<close> on an empty array.\<close>

definition array_pop :: "'a list \<Rightarrow> 'a option \<times> 'a list" where
  "array_pop xs = (if xs = [] then (None, []) else (Some (last xs), butlast xs))"

definition array_top :: "'a list \<Rightarrow> 'a option" where
  "array_top xs = (if xs = [] then None else Some (last xs))"

text \<open>
  In \<open>undo\<close> and \<open>redo\<close> the branch for \<open>undefined\<close> stands for the \<open>TypeError\<close> that
  \<open>_restoreState(undefined)\<close> would raise.
\<close>

definition undo :: "platform \<Rightarrow> engine \<Rightarrow> bool completion \<times> engine" where
  "undo P s =
     (if length (undoStack s) \<le> 1 then (Inr False, s)
      else
        (case array_pop (undoStack s) of
           (None, rest) \<Rightarrow> (Inl TypeError, s\<lparr>undoStack := rest\<rparr>)
         | (Some currentState, rest) \<Rightarrow>
             (let s1 = s\<lparr>undoStack := rest, redoStack := redoStack s @ [currentState]\<rparr> in
              case restoreState P (array_top (undoStack s1)) s1 of
                (Inl err, s2) \<Rightarrow> (Inl err, s2)
              | (Inr u, s2) \<Rightarrow> (Inr True, s2))))"

definition redo :: "platform \<Rightarrow> engine \<Rightarrow> bool completion \<times> engine" where
  "redo P s =
     (if length (redoStack s) = 0 then (Inr False, s)
      else
        (case array_pop (redoStack s) of
           (None, rest) \<Rightarrow> (Inl TypeError, s\<lparr>redoStack := rest\<rparr>)
         | (Some state, rest) \<Rightarrow>
             (let s1 = s\<lparr>redoStack := rest, undoStack := undoStack s @ [state]\<rparr> in
              case restoreState P (Some state) s1 of
                (Inl err, s2) \<Rightarrow> (Inl err, s2)
              | (Inr u, s2) \<Rightarrow> (Inr True, s2))))"

definition clear :: "platform \<Rightarrow> engine \<Rightarrow> unit completion \<times> engine" where
  "clear P s =
     (let c = (ctx s)\<lparr>fillStyle := ''#ffffff''\<rparr>;
          s1 = s\<lparr>ctx := c, canvas := fillRect P c (canvas s)\<rparr>
      in saveState (applyContextSettings P s1))"

definition exportImage :: "platform \<Rightarrow> string \<Rightarrow> engine \<Rightarrow> string" where
  "exportImage P format s = toDataURL P format (canvas s)"

definition resize :: "platform \<Rightarrow> nat \<Rightarrow> nat \<Rightarrow> engine \<Rightarrow> unit completion \<times> engine" where
  "resize P w h s =
     (case getImageData (canvas s) of
        Inl err \<Rightarrow> (Inl err, s)
      | Inr imageData \<Rightarrow>
          (let s1 = set_canvas_height h (set_canvas_width w s);
               s2 = set_temp_height h (set_temp_width w s1);
               s3 = s2\<lparr>canvas := putImageData imageData (canvas s2)\<rparr>
           in (Inr (), applyContextSettings P s3)))"

text \<open>
  \<open>destroy\<close> also asks the host to remove the listeners, which are no part of the
  engine's state.
\<close>

definition destroy :: "engine \<Rightarrow> engine" where
  "destroy s = s\<lparr>undoStack := [], redoStack := []\<rparr>"

text \<open>
  The constructor, given the layout size of the canvas element. The buffers are sized
  by \<open>_initializeCanvas\<close>, so the size the two canvases had before (the platform's
  300 by 150) does not show in the result.
\<close>

definition DrawingEngine :: "platform \<Rightarrow> nat \<Rightarrow> nat \<Rightarrow> unit completion \<times> engine" where
  "DrawingEngine P offsetWidth offsetHeight =
     saveState (initializeCanvas P offsetWidth offsetHeight
       \<lparr>canvas = blank 300 150, ctx = default_context, currentTool = ''freehand'',
        currentColor = ''#000000'', strokeWidth = Fin 2, isDrawing = False,
        startX = Fin 0, startY = Fin 0, lastX = Fin 0, lastY = Fin 0,
        undoStack = [], redoStack = [], maxUndoSteps = 50, tempCanvas = blank 300 150\<rparr>)"

subsection \<open>Sequences of calls\<close>

text \<open>
  What the host can do to a constructed engine: call a public method or deliver an
  event. \<open>step\<close> is the engine afterwards, whether the call returned or raised.
\<close>

datatype op =
    SetTool jsvalue
  | SetColor string
  | SetStrokeWidth jsnum
  | Undo
  | Redo
  | Clear
  | Resize nat nat
  | ExportImage string
  | Destroy
  | Start dom_event
  | Move dom_event
  | End dom_event
  | WindowResize nat nat

fun step :: "platform \<Rightarrow> op \<Rightarrow> engine \<Rightarrow> engine" where
  "step P (SetTool tool) s = snd (setTool tool s)"
| "step P (SetColor color) s = setColor P color s"
| "step P (SetStrokeWidth w) s = setStrokeWidth w s"
| "step P Undo s = snd (undo P s)"
| "step P Redo s = snd (redo P s)"
| "step P Clear s = snd (clear P s)"
| "step P (Resize w h) s = snd (resize P w h s)"
| "step P (ExportImage format) s = s"
| "step P Destroy s = destroy s"
| "step P (Start e) s = snd (handleStart P e s)"
| "step P (Move e) s = snd (handleMove P e s)"
| "step P (End e) s = snd (handleEnd P e s)"
| "step P (WindowResize ow oh) s = snd (handleResize P ow oh s)"

fun run :: "platform \<Rightarrow> op list \<Rightarrow> engine \<Rightarrow> engine" where
  "run P [] s = s"
| "run P (a # ops) s = run P ops (step P a s)"

fun undos :: "platform \<Rightarrow> nat \<Rightarrow> engine \<Rightarrow> engine" where
  "undos P 0 s = s"
| "undos P (Suc n) s = undos P n (snd (undo P s))"

fun redos :: "platform \<Rightarrow> nat \<Rightarrow> engine \<Rightarrow> engine" where
  "redos P 0 s = s"
| "redos P (Suc n) s = redos P n (snd (redo P s))"

text \<open>
  A committed action: \<open>clear()\<close>, or a gesture (a Start event, Move events, an End
  event) whose End pushes a snapshot. \<open>perform\<close> is \<open>None\<close> when the committing call
  raises; \<open>perform_all\<close> runs a sequence of committed actions.
\<close>

datatype action = ClearCanvas | Gesture dom_event "dom_event list" dom_event

fun moves :: "platform \<Rightarrow> dom_event list \<Rightarrow> engine \<Rightarrow> engine" where
  "moves P [] s = s"
| "moves P (e # es) s = moves P es (snd (handleMove P e s))"

fun perform :: "platform \<Rightarrow> action \<Rightarrow> engine \<Rightarrow> engine option" where
  "perform P ClearCanvas s =
     (case clear P s of (Inl err, s1) \<Rightarrow> None | (Inr u, s1) \<Rightarrow> Some s1)"
| "perform P (Gesture e0 es e1) s =
     (case handleEnd P e1 (moves P es (snd (handleStart P e0 s))) of
        (Inl err, s1) \<Rightarrow> None
      | (Inr u, s1) \<Rightarrow> Some s1)"

fun perform_all :: "platform \<Rightarrow> action list \<Rightarrow> engine \<Rightarrow> engine option" where
  "perform_all P [] s = Some s"
| "perform_all P (a # as) s =
     (case perform P a s of None \<Rightarrow> None | Some s1 \<Rightarrow> perform_all P as s1)"

section \<open>A backend for running the model\<close>

text \<open>
  The theorems below hold for every platform. To run the engine on concrete inputs a
  small platform is fixed here: rational arithmetic on finite numbers (the square root
  by Heron's iteration) and a rasteriser that paints, in opaque black, the pixel at
  each point a path command names.
\<close>

fun heron :: "nat \<Rightarrow> real \<Rightarrow> real \<Rightarrow> real" where
  "heron 0 x g = g"
| "heron (Suc n) x g = heron n x ((g + x / g) / 2)"

definition approx_sqrt :: "jsnum \<Rightarrow> jsnum" where
  "approx_sqrt a =
     (case a of
        Fin x \<Rightarrow> (if x < 0 then NaN else if x = 0 then Fin 0 else Fin (heron 8 x x))
      | PosInf \<Rightarrow> PosInf
      | _ \<Rightarrow> NaN)"

definition int_pow :: "jsnum \<Rightarrow> jsnum \<Rightarrow> jsnum" where
  "int_pow a b =
     (case a of
        Fin x \<Rightarrow> (case b of Fin y \<Rightarrow> (if 0 \<le> y \<and> y = of_int \<lfloor>y\<rfloor> then Fin (x ^ nat \<lfloor>y\<rfloor>) else NaN)
                  | _ \<Rightarrow> NaN)
      | _ \<Rightarrow> NaN)"

text \<open>The test platform takes the six-digit hexadecimal notation for its colours.\<close>

definition hex_color :: "string \<Rightarrow> bool" where
  "hex_color c =
     (length c = 7 \<and> take 1 c = ''#'' \<and> list_all (\<lambda>d. d \<in> set ''0123456789abcdefABCDEF'') (drop 1 c))"

definition exact2 :: "(real \<Rightarrow> real \<Rightarrow> real) \<Rightarrow> jsnum \<Rightarrow> jsnum \<Rightarrow> jsnum" where
  "exact2 f a b = (case a of Fin x \<Rightarrow> (case b of Fin y \<Rightarrow> Fin (f x y) | _ \<Rightarrow> NaN) | _ \<Rightarrow> NaN)"

fun cmd_point :: "path_cmd \<Rightarrow> jsnum \<times> jsnum" where
  "cmd_point (MoveTo x y) = (x, y)"
| "cmd_point (LineTo x y) = (x, y)"
| "cmd_point (Rect x y w h) = (x, y)"
| "cmd_point (Arc x y r a b) = (x, y)"

definition dot_stroke :: "context2d \<Rightarrow> image \<Rightarrow> nat \<Rightarrow> nat \<Rightarrow> pixel" where
  "dot_stroke c b x y =
     (if (Fin (real x), Fin (real y)) \<in> set (map cmd_point (path c)) then RGBA 0 0 0 255
      else pixel_at b x y)"

definition test_platform :: platform where
  "test_platform =
     \<lparr>stroke = dot_stroke,
      blend = (\<lambda>s d. s),
      is_color = hex_color,
      parse_color = (\<lambda>c. RGBA 0 0 0 255),
      num_add = exact2 (\<lambda>x y. x + y),
      num_sub = exact2 (\<lambda>x y. x - y),
      num_mul = exact2 (\<lambda>x y. x * y),
      num_div = (\<lambda>a b. if b = Fin 0 then NaN else exact2 (\<lambda>x y. x / y) a b),
      Math_sqrt = approx_sqrt,
      Math_pow = int_pow,
      Math_PI = Fin (355 / 113),
      toDataURL = (\<lambda>format b. [])\<rparr>"

text \<open>
  A mouse event of the given type at client position \<open>(x, y)\<close>, over a canvas laid
  out at the origin with the size \<open>w\<close> by \<open>h\<close>.
\<close>

definition mouse_event :: "string \<Rightarrow> real \<Rightarrow> real \<Rightarrow> real \<Rightarrow> real \<Rightarrow> dom_event" where
  "mouse_event ty x y w h =
     \<lparr>etype = ty, clientX = Fin x, clientY = Fin y, touches = [], changedTouches = [],
      rect_left = Fin 0, rect_top = Fin 0, rect_width = Fin w, rect_height = Fin h\<rparr>"

text \<open>The engine constructed over a canvas laid out at \<open>w\<close> by \<open>h\<close> pixels.\<close>

definition fresh :: "nat \<Rightarrow> nat \<Rightarrow> engine" where
  "fresh w h = snd (DrawingEngine test_platform w h)"

section \<open>Sample states\<close>

text \<open>Sample states: after one freehand stroke, and in the middle of a line gesture.\<close>

definition drawn :: engine where
  "drawn =
     run test_platform
       [Start (mouse_event ''mousedown'' 0 0 2 2), Move (mouse_event ''mousemove'' 1 1 2 2),
        End (mouse_event ''mouseup'' 1 1 2 2)]
       (fresh 2 2)"

definition previewing :: engine where
  "previewing =
     run test_platform
       [SetTool (JSString ''line''), Start (mouse_event ''mousedown'' 0 0 2 2),
        Move (mouse_event ''mousemove'' 1 1 2 2)]
       (fresh 2 2)"

text \<open>Two freehand strokes as committed actions, and the engine after both.\<close>

definition stroke_a :: action where
  "stroke_a =
     Gesture (mouse_event ''mousedown'' 0 0 2 2) [mouse_event ''mousemove'' 1 1 2 2]
       (mouse_event ''mouseup'' 1 1 2 2)"

definition stroke_b :: action where
  "stroke_b =
     Gesture (mouse_event ''mousedown'' 1 0 2 2) [mouse_event ''mousemove'' 0 1 2 2]
       (mouse_event ''mouseup'' 0 1 2 2)"

definition two_strokes :: engine where
  "two_strokes =
     run test_platform
       [Start (mouse_event ''mousedown'' 1 0 2 2), Move (mouse_event ''mousemove'' 0 1 2 2),
        End (mouse_event ''mouseup'' 0 1 2 2)]
       drawn"

text \<open>One stroke, one undo, then \<open>clear()\<close>.\<close>

definition cleared_after_undo :: engine where
  "cleared_after_undo = run test_platform [Undo, Clear] drawn"

text \<open>In the middle of a freehand stroke; and a surface resized to nothing.\<close>

definition sketching :: engine where
  "sketching =
     run test_platform
       [Start (mouse_event ''mousedown'' 0 0 2 2), Move (mouse_event ''mousemove'' 1 1 2 2)]
       (fresh 2 2)"

definition collapsed :: engine where
  "collapsed = run test_platform [Resize 0 0] (fresh 2 2)"

text \<open>A red stroke colour; and a stroke colour that is no colour.\<close>

definition recoloured :: engine where
  "recoloured = run test_platform [SetColor ''#ff0000''] (fresh 2 2)"

definition miscoloured :: engine where
  "miscoloured = run test_platform [SetColor ''not-a-color''] (fresh 2 2)"

text \<open>The surface widened by one column, and a stroke that touches only that column.\<close>

definition margin_stroke :: engine where
  "margin_stroke =
     run test_platform
       [Resize 3 1, Start (mouse_event ''mousedown'' 2 0 3 1),
        Move (mouse_event ''mousemove'' 2 0 3 1), End (mouse_event ''mouseup'' 2 0 3 1)]
       (fresh 2 2)"

section \<open>Invariants\<close>

text \<open>
  Two bitmaps have the same shape when a snapshot of one covers the other exactly.
\<close>

definition same_shape :: "image \<Rightarrow> image \<Rightarrow> bool" where
  "same_shape a b =
     (width a = width b \<and> height a = height b \<and> map length (rows a) = map length (rows b))"

text \<open>The part of the engine that the history operations read and write.\<close>

definition hist :: "engine \<Rightarrow> image list \<times> image list \<times> nat" where
  "hist s = (undoStack s, redoStack s, maxUndoSteps s)"

text \<open>
  A call commits when it pushes a snapshot: \<open>clear()\<close>, or an End event while a
  gesture is active, that returns normally. \<open>commits\<close> counts the calls of a run that
  commit.
\<close>

fun pushes :: "platform \<Rightarrow> op \<Rightarrow> engine \<Rightarrow> bool" where
  "pushes P Clear s = (fst (clear P s) = Inr ())"
| "pushes P (End e) s = (isDrawing s \<and> fst (handleEnd P e s) = Inr ())"
| "pushes P _ s = False"

fun commits :: "platform \<Rightarrow> op list \<Rightarrow> engine \<Rightarrow> nat" where
  "commits P [] s = 0"
| "commits P (a # ops) s = (if pushes P a s then 1 else 0) + commits P ops (step P a s)"

text \<open>
  While undo and redo run, the two stacks together keep the timeline \<open>T\<close> and the
  surface keeps its shape; with an empty redo stack the surface is the final one.
\<close>

definition replaying :: "image list \<Rightarrow> image \<Rightarrow> engine \<Rightarrow> bool" where
  "replaying T c s =
     (undoStack s @ rev (redoStack s) = T \<and> same_shape (canvas s) c
      \<and> (redoStack s = [] \<longrightarrow> canvas s = c))"

text \<open>The snapshots of both stacks never outnumber the configured maximum.\<close>

definition hist_ok :: "engine \<Rightarrow> bool" where
  "hist_ok s = (length (undoStack s) + length (redoStack s) \<le> maxUndoSteps s)"

text \<open>
  After \<open>n\<close> commits on an engine constructed with the snapshot \<open>b\<close>: the undo
  stack is not empty and, as long as nothing was evicted, \<open>b\<close> is still its bottom.
\<close>

definition rooted :: "image \<Rightarrow> nat \<Rightarrow> engine \<Rightarrow> bool" where
  "rooted b n s =
     (maxUndoSteps s = 50 \<and> undoStack s \<noteq> []
      \<and> (n < 50 \<longrightarrow> length (undoStack s) + length (redoStack s) \<le> Suc n \<and> hd (undoStack s) = b))"

text \<open>
  The surface is a well-formed bitmap and the scratch canvas has its dimensions.
\<close>

definition sized :: "engine \<Rightarrow> bool" where
  "sized s =
     (wf_image (canvas s) \<and> width (tempCanvas s) = width (canvas s)
      \<and> height (tempCanvas s) = height (canvas s))"

text \<open>Every snapshot of the history is a well-formed bitmap.\<close>

definition snapshots_wf :: "engine \<Rightarrow> bool" where
  "snapshots_wf s = (list_all wf_image (undoStack s) \<and> list_all wf_image (redoStack s))"

section \<open>Bitmaps\<close>

lemma length_overlay [simp]: "length (overlay f xs ys) = length ys"
  by (induction f xs ys rule: overlay.induct) auto

lemma overlay_nth:
  "i < length ys \<Longrightarrow> overlay f xs ys ! i = (if i < length xs then f (xs ! i) (ys ! i) else ys ! i)"
proof (induction f xs ys arbitrary: i rule: overlay.induct)
  case (1 f s ss d ds)
  then show ?case by (cases i) auto
qed auto

lemma overlay_fst_same: "length xs = length ys \<Longrightarrow> overlay (\<lambda>s d. s) xs ys = xs"
  by (induction xs ys rule: list_induct2) auto

lemma overlay_rows_same:
  "map length xs = map length ys \<Longrightarrow> overlay (overlay (\<lambda>s d. s)) xs ys = xs"
proof (induction xs arbitrary: ys)
  case Nil
  then show ?case by simp
next
  case (Cons x xs)
  then obtain y ys' where "ys = y # ys'" by (cases ys) auto
  with Cons show ?case by (simp add: overlay_fst_same)
qed

lemma overlay_rows_shape: "map length (overlay (overlay f) xs ys) = map length ys"
  by (induction "overlay f" xs ys rule: overlay.induct) auto

lemma same_shape_refl [simp]: "same_shape a a"
  by (simp add: same_shape_def)

lemma putImageData_shape: "same_shape (putImageData a b) b"
  by (simp add: same_shape_def putImageData_def overlay_rows_shape)

lemma putImageData_same: "same_shape a b \<Longrightarrow> putImageData a b = a"
  by (simp add: same_shape_def putImageData_def overlay_rows_same)

lemma putImageData_dims [simp]:
  "width (putImageData a b) = width b" "height (putImageData a b) = height b"
  by (simp_all add: putImageData_def)

lemma pixel_at_putImageData:
  "pixel_at (putImageData a b) x y =
     (if y < length (rows b) \<and> x < length (rows b ! y) \<and> y < length (rows a) \<and> x < length (rows a ! y)
      then pixel_at a x y else pixel_at b x y)"
  by (auto simp: pixel_at_def putImageData_def overlay_nth)

lemma blank_sel [simp]:
  "width (blank w h) = w" "height (blank w h) = h"
  "length (rows (blank w h)) = h" "y < h \<Longrightarrow> rows (blank w h) ! y = replicate w transparent"
  by (simp_all add: blank_def filled_def)

lemma wf_blank [simp]: "wf_image (blank w h)"
  by (simp add: wf_image_def blank_def filled_def list_all_iff)

lemma wf_putImageData: "wf_image b \<Longrightarrow> wf_image (putImageData a b)"
  by (auto simp: wf_image_def putImageData_def list_all_length overlay_nth)

lemma pixel_at_blank [simp]: "pixel_at (blank w h) x y = transparent"
  by (auto simp: pixel_at_def blank_def filled_def)

lemma overlay_over_cleared:
  "overlay (source_over P) xs (replicate (length xs) transparent) = xs"
  by (induction xs) (auto simp: source_over_def transparent_def)

lemma overlay_rows_over_cleared:
  "list_all (\<lambda>r. length r = w) xs \<Longrightarrow>
     overlay (overlay (source_over P)) xs (replicate (length xs) (replicate w transparent)) = xs"
  by (induction xs) (auto simp: overlay_over_cleared)

lemma drawImage_over_cleared:
  assumes "wf_image a" "width a \<noteq> 0" "height a \<noteq> 0" "width b = width a" "height b = height a"
  shows "drawImage P a (clearRect b) = Inr a"
  using assms overlay_rows_over_cleared [of "width a" "rows a" P]
  by (simp add: drawImage_def clearRect_def blank_def filled_def wf_image_def)

lemma handleResize_is_resize: "handleResize P w h s = resize P w h s"
  by (simp add: handleResize_def resize_def Let_def set_canvas_height_def set_canvas_width_def
      blank_def filled_def split: sum.splits)

section \<open>The sample states, evaluated\<close>

lemma fresh_1_1_eval:
  "fresh 1 1 =
     \<lparr>canvas = \<lparr>width = 1, height = 1, rows = [[RGBA 255 255 255
     255]]\<rparr>, ctx = \<lparr>lineCap = ''round'', lineJoin = ''round'', strokeStyle
     = ''#000000'', lineWidth = Fin 2, fillStyle = ''#ffffff'', path = []\<rparr>,
     currentTool = ''freehand'', currentColor = ''#000000'', strokeWidth = Fin 2,
     isDrawing = False, startX = Fin 0, startY = Fin 0, lastX = Fin 0, lastY = Fin 0,
     undoStack = [\<lparr>width = 1, height = 1, rows = [[RGBA 255 255 255
     255]]\<rparr>], redoStack = [], maxUndoSteps = 50, tempCanvas = \<lparr>width = 1,
     height = 1, rows = [[RGBA 0 0 0 0]]\<rparr>\<rparr>"
  by code_simp

lemma fresh_2_2_eval:
  "fresh 2 2 =
     \<lparr>canvas = \<lparr>width = 2, height = 2, rows = [[RGBA 255 255 255 255, RGBA
     255 255 255 255], [RGBA 255 255 255 255, RGBA 255 255 255 255]]\<rparr>, ctx =
     \<lparr>lineCap = ''round'', lineJoin = ''round'', strokeStyle = ''#000000'',
     lineWidth = Fin 2, fillStyle = ''#ffffff'', path = []\<rparr>, currentTool =
     ''freehand'', currentColor = ''#000000'', strokeWidth = Fin 2, isDrawing = False,
     startX = Fin 0, startY = Fin 0, lastX = Fin 0, lastY = Fin 0, undoStack =
     [\<lparr>width = 2, height = 2, rows = [[RGBA 255 255 255 255, RGBA 255 255 255
     255], [RGBA 255 255 255 255, RGBA 255 255 255 255]]\<rparr>], redoStack = [],
     maxUndoSteps = 50, tempCanvas = \<lparr>width = 2, height = 2, rows = [[RGBA 0 0 0
     0, RGBA 0 0 0 0], [RGBA 0 0 0 0, RGBA 0 0 0 0]]\<rparr>\<rparr>"
  by code_simp

lemma drawn_eval:
  "drawn =
     \<lparr>canvas = \<lparr>width = 2, height = 2, rows = [[RGBA 0 0 0 255, RGBA 255
     255 255 255], [RGBA 255 255 255 255, RGBA 0 0 0 255]]\<rparr>, ctx =
     \<lparr>lineCap = ''round'', lineJoin = ''round'', strokeStyle = ''#000000'',
     lineWidth = Fin 2, fillStyle = ''#ffffff'', path = [MoveTo (Fin 0) (Fin 0), LineTo
     (Fin 1) (Fin 1)]\<rparr>, currentTool = ''freehand'', currentColor = ''#000000'',
     strokeWidth = Fin 2, isDrawing = False, startX = Fin 0, startY = Fin 0, lastX = Fin
     1, lastY = Fin 1, undoStack = [\<lparr>width = 2, height = 2, rows = [[RGBA 255 255
     255 255, RGBA 255 255 255 255], [RGBA 255 255 255 255, RGBA 255 255 255
     255]]\<rparr>, \<lparr>width = 2, height = 2, rows = [[RGBA 0 0 0 255, RGBA 255 255
     255 255], [RGBA 255 255 255 255, RGBA 0 0 0 255]]\<rparr>], redoStack = [],
     maxUndoSteps = 50, tempCanvas = \<lparr>width = 2, height = 2, rows = [[RGBA 0 0 0
     0, RGBA 0 0 0 0], [RGBA 0 0 0 0, RGBA 0 0 0 0]]\<rparr>\<rparr>"
  by code_simp

lemma previewing_eval:
  "previewing =
     \<lparr>canvas = \<lparr>width = 2, height = 2, rows = [[RGBA 0 0 0 255, RGBA 255
     255 255 255], [RGBA 255 255 255 255, RGBA 0 0 0 255]]\<rparr>, ctx =
     \<lparr>lineCap = ''round'', lineJoin = ''round'', strokeStyle = ''#000000'',
     lineWidth = Fin 2, fillStyle = ''#ffffff'', path = [MoveTo (Fin 0) (Fin 0), LineTo
     (Fin 1) (Fin 1)]\<rparr>, currentTool = ''line'', currentColor = ''#000000'',
     strokeWidth = Fin 2, isDrawing = True, startX = Fin 0, startY = Fin 0, lastX = Fin
     1, lastY = Fin 1, undoStack = [\<lparr>width = 2, height = 2, rows = [[RGBA 255 255
     255 255, RGBA 255 255 255 255], [RGBA 255 255 255 255, RGBA 255 255 255
     255]]\<rparr>], redoStack = [], maxUndoSteps = 50, tempCanvas = \<lparr>width = 2,
     height = 2, rows = [[RGBA 255 255 255 255, RGBA 255 255 255 255], [RGBA 255 255 255
     255, RGBA 255 255 255 255]]\<rparr>\<rparr>"
  by code_simp

lemma two_strokes_eval:
  "two_strokes =
     \<lparr>canvas = \<lparr>width = 2, height = 2, rows = [[RGBA 0 0 0 255, RGBA 0 0 0
     255], [RGBA 0 0 0 255, RGBA 0 0 0 255]]\<rparr>, ctx = \<lparr>lineCap = ''round'',
     lineJoin = ''round'', strokeStyle = ''#000000'', lineWidth = Fin 2, fillStyle =
     ''#ffffff'', path = [MoveTo (Fin 1) (Fin 0), LineTo (Fin 0) (Fin 1)]\<rparr>,
     currentTool = ''freehand'', currentColor = ''#000000'', strokeWidth = Fin 2,
     isDrawing = False, startX = Fin 1, startY = Fin 0, lastX = Fin 0, lastY = Fin 1,
     undoStack = [\<lparr>width = 2, height = 2, rows = [[RGBA 255 255 255 255, RGBA 255
     255 255 255], [RGBA 255 255 255 255, RGBA 255 255 255 255]]\<rparr>, \<lparr>width
     = 2, height = 2, rows = [[RGBA 0 0 0 255, RGBA 255 255 255 255], [RGBA 255 255 255
     255, RGBA 0 0 0 255]]\<rparr>, \<lparr>width = 2, height = 2, rows = [[RGBA 0 0 0
     255, RGBA 0 0 0 255], [RGBA 0 0 0 255, RGBA 0 0 0 255]]\<rparr>], redoStack = [],
     maxUndoSteps = 50, tempCanvas = \<lparr>width = 2, height = 2, rows = [[RGBA 0 0 0
     0, RGBA 0 0 0 0], [RGBA 0 0 0 0, RGBA 0 0 0 0]]\<rparr>\<rparr>"
  unfolding two_strokes_def drawn_eval by code_simp

lemma cleared_after_undo_eval:
  "cleared_after_undo =
     \<lparr>canvas = \<lparr>width = 2, height = 2, rows = [[RGBA 255 255 255 255, RGBA
     255 255 255 255], [RGBA 255 255 255 255, RGBA 255 255 255 255]]\<rparr>, ctx =
     \<lparr>lineCap = ''round'', lineJoin = ''round'', strokeStyle = ''#000000'',
     lineWidth = Fin 2, fillStyle = ''#ffffff'', path = [MoveTo (Fin 0) (Fin 0), LineTo
     (Fin 1) (Fin 1)]\<rparr>, currentTool = ''freehand'', currentColor = ''#000000'',
     strokeWidth = Fin 2, isDrawing = False, startX = Fin 0, startY = Fin 0, lastX = Fin
     1, lastY = Fin 1, undoStack = [\<lparr>width = 2, height = 2, rows = [[RGBA 255 255
     255 255, RGBA 255 255 255 255], [RGBA 255 255 255 255, RGBA 255 255 255
     255]]\<rparr>, \<lparr>width = 2, height = 2, rows = [[RGBA 255 255 255 255, RGBA
     255 255 255 255], [RGBA 255 255 255 255, RGBA 255 255 255 255]]\<rparr>], redoStack
     = [], maxUndoSteps = 50, tempCanvas = \<lparr>width = 2, height = 2, rows = [[RGBA
     0 0 0 0, RGBA 0 0 0 0], [RGBA 0 0 0 0, RGBA 0 0 0 0]]\<rparr>\<rparr>"
  unfolding cleared_after_undo_def drawn_eval by code_simp

lemma sketching_eval:
  "sketching =
     \<lparr>canvas = \<lparr>width = 2, height = 2, rows = [[RGBA 0 0 0 255, RGBA 255
     255 255 255], [RGBA 255 255 255 255, RGBA 0 0 0 255]]\<rparr>, ctx =
     \<lparr>lineCap = ''round'', lineJoin = ''round'', strokeStyle = ''#000000'',
     lineWidth = Fin 2, fillStyle = ''#ffffff'', path = [MoveTo (Fin 0) (Fin 0), LineTo
     (Fin 1) (Fin 1)]\<rparr>, currentTool = ''freehand'', currentColor = ''#000000'',
     strokeWidth = Fin 2, isDrawing = True, startX = Fin 0, startY = Fin 0, lastX = Fin
     1, lastY = Fin 1, undoStack = [\<lparr>width = 2, height = 2, rows = [[RGBA 255 255
     255 255, RGBA 255 255 255 255], [RGBA 255 255 255 255, RGBA 255 255 255
     255]]\<rparr>], redoStack = [], maxUndoSteps = 50, tempCanvas = \<lparr>width = 2,
     height = 2, rows = [[RGBA 0 0 0 0, RGBA 0 0 0 0], [RGBA 0 0 0 0, RGBA 0 0 0
     0]]\<rparr>\<rparr>"
  unfolding sketching_def fresh_2_2_eval by code_simp

lemma collapsed_eval:
  "collapsed =
     \<lparr>canvas = \<lparr>width = 0, height = 0, rows = []\<rparr>, ctx =
     \<lparr>lineCap = ''round'', lineJoin = ''round'', strokeStyle = ''#000000'',
     lineWidth = Fin 2, fillStyle = ''#000000'', path = []\<rparr>, currentTool =
     ''freehand'', currentColor = ''#000000'', strokeWidth = Fin 2, isDrawing = False,
     startX = Fin 0, startY = Fin 0, lastX = Fin 0, lastY = Fin 0, undoStack =
     [\<lparr>width = 2, height = 2, rows = [[RGBA 255 255 255 255, RGBA 255 255 255
     255], [RGBA 255 255 255 255, RGBA 255 255 255 255]]\<rparr>], redoStack = [],
     maxUndoSteps = 50, tempCanvas = \<lparr>width = 0, height = 0, rows =
     []\<rparr>\<rparr>"
  unfolding collapsed_def fresh_2_2_eval by code_simp

lemma margin_stroke_eval:
  "margin_stroke =
     \<lparr>canvas = \<lparr>width = 3, height = 1, rows = [[RGBA 255 255 255 255, RGBA
     255 255 255 255, RGBA 0 0 0 255]]\<rparr>, ctx = \<lparr>lineCap = ''round'',
     lineJoin = ''round'', strokeStyle = ''#000000'', lineWidth = Fin 2, fillStyle =
     ''#000000'', path = [MoveTo (Fin 2) (Fin 0), LineTo (Fin 2) (Fin 0)]\<rparr>,
     currentTool = ''freehand'', currentColor = ''#000000'', strokeWidth = Fin 2,
     isDrawing = False, startX = Fin 2, startY = Fin 0, lastX = Fin 2, lastY = Fin 0,
     undoStack = [\<lparr>width = 2, height = 2, rows = [[RGBA 255 255 255 255, RGBA 255
     255 255 255], [RGBA 255 255 255 255, RGBA 255 255 255 255]]\<rparr>, \<lparr>width
     = 3, height = 1, rows = [[RGBA 255 255 255 255, RGBA 255 255 255 255, RGBA 0 0 0
     255]]\<rparr>], redoStack = [], maxUndoSteps = 50, tempCanvas = \<lparr>width = 3,
     height = 1, rows = [[RGBA 0 0 0 0, RGBA 0 0 0 0, RGBA 0 0 0 0]]\<rparr>\<rparr>"
  unfolding margin_stroke_def fresh_2_2_eval by code_simp

lemma fresh_1_1_constructed: "DrawingEngine test_platform 1 1 = (Inr (), fresh 1 1)"
  unfolding fresh_1_1_eval by code_simp

lemma fresh_2_2_constructed: "DrawingEngine test_platform 2 2 = (Inr (), fresh 2 2)"
  unfolding fresh_2_2_eval by code_simp

section \<open>History\<close>

lemma saveState_cases:
  "saveState s = (Inl IndexSizeError, s)
   \<or> saveState s =
       (Inr (), s\<lparr>undoStack := (if length (undoStack s) < maxUndoSteps s then undoStack s @ [canvas s]
                                 else tl (undoStack s @ [canvas s])),
                   redoStack := []\<rparr>)"
  by (auto simp: saveState_def getImageData_def Let_def)

lemma saveState_Inr:
  assumes "saveState s = (Inr u, s')"
  shows "s' = s\<lparr>undoStack := (if length (undoStack s) < maxUndoSteps s then undoStack s @ [canvas s]
                              else tl (undoStack s @ [canvas s])),
                redoStack := []\<rparr>"
  using assms saveState_cases [of s] by auto

lemma saveState_Inl: "saveState s = (Inl err, s') \<Longrightarrow> s' = s"
  using saveState_cases [of s] by auto

lemma undo_eq:
  "undo P s =
     (if length (undoStack s) \<le> 1 then (Inr False, s)
      else (Inr True,
            applyContextSettings P
              (s\<lparr>undoStack := butlast (undoStack s),
                 redoStack := redoStack s @ [last (undoStack s)],
                 canvas := putImageData (last (butlast (undoStack s))) (canvas s)\<rparr>)))"
proof (cases "length (undoStack s) \<le> 1")
  case True
  then show ?thesis by (simp add: undo_def)
next
  case False
  then have "undoStack s \<noteq> []" "butlast (undoStack s) \<noteq> []"
    by (auto simp: butlast_conv_take)
  with False show ?thesis
    by (simp add: undo_def array_pop_def array_top_def restoreState_def Let_def)
qed

lemma redo_eq:
  "redo P s =
     (if redoStack s = [] then (Inr False, s)
      else (Inr True,
            applyContextSettings P
              (s\<lparr>redoStack := butlast (redoStack s),
                 undoStack := undoStack s @ [last (redoStack s)],
                 canvas := putImageData (last (redoStack s)) (canvas s)\<rparr>)))"
  by (simp add: redo_def array_pop_def restoreState_def Let_def)

lemma applyContextSettings_sel [simp]:
  "undoStack (applyContextSettings P s) = undoStack s"
  "redoStack (applyContextSettings P s) = redoStack s"
  "maxUndoSteps (applyContextSettings P s) = maxUndoSteps s"
  "canvas (applyContextSettings P s) = canvas s"
  "tempCanvas (applyContextSettings P s) = tempCanvas s"
  "isDrawing (applyContextSettings P s) = isDrawing s"
  "currentTool (applyContextSettings P s) = currentTool s"
  by (simp_all add: applyContextSettings_def)

lemma hist_applyContextSettings [simp]: "hist (applyContextSettings P s) = hist s"
  by (simp add: hist_def)

lemma drawShapePath_sel [simp]:
  "undoStack (drawShapePath P x1 y1 x2 y2 s) = undoStack s"
  "redoStack (drawShapePath P x1 y1 x2 y2 s) = redoStack s"
  "maxUndoSteps (drawShapePath P x1 y1 x2 y2 s) = maxUndoSteps s"
  "isDrawing (drawShapePath P x1 y1 x2 y2 s) = isDrawing s"
  "canvas (drawShapePath P x1 y1 x2 y2 s) = canvas s"
  by (simp_all add: drawShapePath_def Let_def)

lemma drawShape_frame:
  "hist (snd (drawShape P x y s)) = hist s" "isDrawing (snd (drawShape P x y s)) = isDrawing s"
  by (simp_all add: drawShape_def hist_def Let_def split: sum.splits)

lemma drawShapePreview_frame:
  "hist (snd (drawShapePreview P x y s)) = hist s"
  "isDrawing (snd (drawShapePreview P x y s)) = isDrawing s"
  by (simp_all add: drawShapePreview_def hist_def Let_def split: sum.splits)

lemma handleStart_frame:
  "hist (snd (handleStart P e s)) = hist s" "isDrawing (snd (handleStart P e s))"
  by (simp_all add: handleStart_def hist_def Let_def split: sum.splits prod.splits)

lemma handleMove_frame:
  "hist (snd (handleMove P e s)) = hist s" "isDrawing (snd (handleMove P e s)) = isDrawing s"
proof -
  have "hist (snd (handleMove P e s)) = hist s \<and> isDrawing (snd (handleMove P e s)) = isDrawing s"
  proof (cases "isDrawing s")
    case False
    then show ?thesis by (simp add: handleMove_def)
  next
    case True
    show ?thesis
    proof (cases "getCoordinates P s e")
      case (Inl err)
      with True show ?thesis by (simp add: handleMove_def)
    next
      case (Inr xy)
      obtain x y where xy: "xy = (x, y)" by (cases xy)
      show ?thesis
      proof (cases "currentTool s = ''freehand''")
        case free: True
        with True Inr xy show ?thesis
          by (simp add: handleMove_def drawFreehand_def hist_def Let_def)
      next
        case shape: False
        obtain c s1 where d: "drawShapePreview P x y s = (c, s1)" by (cases "drawShapePreview P x y s")
        with drawShapePreview_frame [of P x y s]
        have "hist s1 = hist s" "isDrawing s1 = isDrawing s" by simp_all
        with True Inr xy shape d show ?thesis
          by (cases c) (simp_all add: handleMove_def hist_def)
      qed
    qed
  qed
  then show "hist (snd (handleMove P e s)) = hist s"
    "isDrawing (snd (handleMove P e s)) = isDrawing s" by simp_all
qed

lemma moves_frame:
  "hist (moves P es s) = hist s" "isDrawing (moves P es s) = isDrawing s"
  by (induction es arbitrary: s) (simp_all add: handleMove_frame)

text \<open>What an End event does to the history: nothing, or the push of \<open>_saveState\<close>.\<close>

lemma handleEnd_cases:
  "(fst (handleEnd P e s) \<noteq> Inr () \<or> \<not> isDrawing s) \<and> hist (snd (handleEnd P e s)) = hist s
   \<or> (\<exists>s0. isDrawing s \<and> hist s0 = hist s \<and> handleEnd P e s = saveState s0
           \<and> fst (saveState s0) = Inr ())"
proof (cases "isDrawing s")
  case False
  then show ?thesis by (simp add: handleEnd_def)
next
  case True
  define r where "r = (if currentTool s \<noteq> ''freehand'' then
                 (case getCoordinates P s e of
                    Inl err \<Rightarrow> (Inl err, s)
                  | Inr (x, y) \<Rightarrow> drawShape P x y s)
               else (Inr (), s))"
  have hr: "hist (snd r) = hist s"
    by (auto simp: r_def drawShape_frame split: sum.splits prod.splits)
  have he: "handleEnd P e s = (case r of (Inl err, s1) \<Rightarrow> (Inl err, s1)
         | (Inr u, s1) \<Rightarrow> saveState (s1\<lparr>isDrawing := False\<rparr>))"
    using True by (simp add: handleEnd_def r_def)
  obtain c s1 where r: "r = (c, s1)" by (cases r)
  show ?thesis
  proof (cases c)
    case (Inl err)
    with he r hr show ?thesis by simp
  next
    case (Inr u)
    let ?s0 = "s1\<lparr>isDrawing := False\<rparr>"
    have h0: "hist ?s0 = hist s" using hr r by (simp add: hist_def)
    have e0: "handleEnd P e s = saveState ?s0" using he r Inr by simp
    show ?thesis
    proof (cases "fst (saveState ?s0)")
      case (Inl err)
      then have "saveState ?s0 = (Inl err, ?s0)"
        using saveState_Inl [of ?s0 err "snd (saveState ?s0)"] by (cases "saveState ?s0") auto
      with e0 h0 show ?thesis by simp
    next
      case (Inr v)
      with e0 h0 True show ?thesis by auto
    qed
  qed
qed

lemma clear_cases:
  "fst (clear P s) \<noteq> Inr () \<and> hist (snd (clear P s)) = hist s
   \<or> (\<exists>s0. hist s0 = hist s \<and> clear P s = saveState s0 \<and> fst (saveState s0) = Inr ())"
proof -
  define s0 where "s0 = applyContextSettings P
      (s\<lparr>ctx := (ctx s)\<lparr>fillStyle := ''#ffffff''\<rparr>,
         canvas := fillRect P ((ctx s)\<lparr>fillStyle := ''#ffffff''\<rparr>) (canvas s)\<rparr>)"
  have c: "clear P s = saveState s0"
    by (simp add: clear_def s0_def Let_def)
  have h: "hist s0 = hist s"
    by (simp add: s0_def hist_def)
  show ?thesis
  proof (cases "fst (saveState s0)")
    case (Inl err)
    then have "saveState s0 = (Inl err, s0)"
      using saveState_Inl [of s0 err "snd (saveState s0)"] by (cases "saveState s0") auto
    with c h show ?thesis by simp
  next
    case (Inr v)
    with c h show ?thesis by auto
  qed
qed

lemma perform_commits:
  assumes "perform P a s = Some s'"
  shows "\<exists>s0. hist s0 = hist s \<and> saveState s0 = (Inr (), s')"
proof (cases a)
  case ClearCanvas
  with assms have c: "clear P s = (Inr (), s')"
    by (auto split: prod.splits sum.splits)
  with clear_cases [of P s] show ?thesis by auto
next
  case (Gesture e0 es e1)
  let ?s2 = "moves P es (snd (handleStart P e0 s))"
  from Gesture assms have c: "handleEnd P e1 ?s2 = (Inr (), s')"
    by (auto split: prod.splits sum.splits)
  have h: "hist ?s2 = hist s" and d: "isDrawing ?s2"
    by (simp_all add: moves_frame handleStart_frame)
  from handleEnd_cases [of P e1 ?s2] c d h show ?thesis by auto
qed

section \<open>Undo followed by redo\<close>

lemma same_shape_sym: "same_shape a b \<Longrightarrow> same_shape b a"
  by (simp add: same_shape_def)

lemma same_shape_trans: "same_shape a b \<Longrightarrow> same_shape b c \<Longrightarrow> same_shape a c"
  by (simp add: same_shape_def)

lemma undo_replaying:
  assumes "replaying T c s"
  shows "replaying T c (snd (undo P s))"
    and "length (redoStack (snd (undo P s))) \<le> Suc (length (redoStack s))"
proof -
  show "length (redoStack (snd (undo P s))) \<le> Suc (length (redoStack s))"
    by (simp add: undo_eq)
  show "replaying T c (snd (undo P s))"
  proof (cases "length (undoStack s) \<le> 1")
    case True
    with assms show ?thesis by (simp add: undo_eq)
  next
    case False
    then have ne: "undoStack s \<noteq> []" by auto
    have "(butlast (undoStack s) @ [last (undoStack s)]) @ rev (redoStack s)
            = undoStack s @ rev (redoStack s)"
      by (simp only: append_butlast_last_id [OF ne])
    then have e1: "butlast (undoStack s) @ last (undoStack s) # rev (redoStack s)
            = undoStack s @ rev (redoStack s)"
      by simp
    have e2: "undoStack s @ rev (redoStack s) = T"
      using assms by (simp add: replaying_def)
    from e1 e2 have "butlast (undoStack s) @ last (undoStack s) # rev (redoStack s) = T"
      by (rule trans)
    moreover have "same_shape (canvas s) c"
      using assms by (simp add: replaying_def)
    then have "same_shape (putImageData (last (butlast (undoStack s))) (canvas s)) c"
      by (rule same_shape_trans [OF putImageData_shape])
    ultimately show ?thesis
      using False by (simp add: undo_eq replaying_def)
  qed
qed

lemma undos_replaying:
  "replaying T c s \<Longrightarrow>
     replaying T c (undos P n s) \<and> length (redoStack (undos P n s)) \<le> length (redoStack s) + n"
proof (induction n arbitrary: s)
  case 0
  then show ?case by simp
next
  case (Suc n)
  from undo_replaying [OF Suc.prems, of P] Suc.IH [of "snd (undo P s)"]
  show ?case by fastforce
qed

lemma redos_idle: "redoStack s = [] \<Longrightarrow> redos P n s = s"
  by (induction n) (simp_all add: redo_eq)

lemma redos_replaying:
  assumes "T \<noteq> [] \<longrightarrow> last T = c"
  shows "replaying T c s \<Longrightarrow> length (redoStack s) \<le> n \<Longrightarrow> canvas (redos P n s) = c"
proof (induction n arbitrary: s)
  case 0
  then show ?case by (simp add: replaying_def)
next
  case (Suc n)
  show ?case
  proof (cases "redoStack s = []")
    case True
    with Suc.prems show ?thesis by (simp add: redos_idle replaying_def del: redos.simps)
  next
    case False
    let ?x = "last (redoStack s)"
    let ?s1 = "snd (redo P s)"
    have u1: "undoStack ?s1 = undoStack s @ [?x]" and r1: "redoStack ?s1 = butlast (redoStack s)"
      and c1: "canvas ?s1 = putImageData ?x (canvas s)"
      using False by (simp_all add: redo_eq)
    have tl: "undoStack ?s1 @ rev (redoStack ?s1) = T"
    proof -
      have "rev (redoStack s) = ?x # rev (butlast (redoStack s))"
        using False by (metis append_butlast_last_id rev.simps(2) rev_append rev_singleton_conv append_Cons append_Nil)
      with Suc.prems(1) show ?thesis by (simp add: u1 r1 replaying_def)
    qed
    have "same_shape (canvas s) c"
      using Suc.prems(1) by (simp add: replaying_def)
    then have sh: "same_shape (canvas ?s1) c"
      unfolding c1 by (rule same_shape_trans [OF putImageData_shape])
    have fin: "canvas ?s1 = c" if "redoStack ?s1 = []"
    proof -
      from that tl have "T = undoStack s @ [?x]" by (simp add: u1)
      with assms have "?x = c" by auto
      moreover have "same_shape c (canvas s)"
        using Suc.prems(1) by (simp add: replaying_def same_shape_sym)
      ultimately show ?thesis by (simp add: c1 putImageData_same)
    qed
    have "replaying T c ?s1"
      using tl sh fin by (simp add: replaying_def)
    moreover have "length (redoStack ?s1) \<le> n"
      using Suc.prems(2) False by (simp add: r1)
    ultimately have "canvas (redos P n ?s1) = c" by (rule Suc.IH)
    then show ?thesis by simp
  qed
qed

lemma undo_redo_after_save:
  assumes "saveState s0 = (Inr (), s')"
  shows "canvas (redos P n (undos P n s')) = canvas s'"
proof -
  from saveState_Inr [OF assms] have r: "redoStack s' = []" and c: "canvas s' = canvas s0"
    and u: "undoStack s' = (if length (undoStack s0) < maxUndoSteps s0 then undoStack s0 @ [canvas s0]
                              else tl (undoStack s0 @ [canvas s0]))"
    by simp_all
  have top: "undoStack s' \<noteq> [] \<longrightarrow> last (undoStack s') = canvas s'"
  proof (cases "undoStack s0")
    case Nil
    then show ?thesis by (simp add: u c)
  next
    case (Cons x xs)
    then show ?thesis by (simp add: u c last_append)
  qed
  have "replaying (undoStack s') (canvas s') s'"
    by (simp add: replaying_def r)
  from undos_replaying [OF this, of P n] r
  have "replaying (undoStack s') (canvas s') (undos P n s')" "length (redoStack (undos P n s')) \<le> n"
    by simp_all
  with redos_replaying [OF top] show ?thesis by blast
qed

lemma perform_all_last:
  "acts \<noteq> [] \<Longrightarrow> perform_all P acts s = Some s' \<Longrightarrow> \<exists>a s1. perform P a s1 = Some s'"
proof (induction acts arbitrary: s)
  case Nil
  then show ?case by simp
next
  case (Cons a acts)
  from Cons.prems(2) obtain s1 where p: "perform P a s = Some s1" and r: "perform_all P acts s1 = Some s'"
    by (auto split: option.splits)
  show ?case
  proof (cases "acts = []")
    case True
    with p r show ?thesis by auto
  next
    case False
    from Cons.IH [OF False r] show ?thesis .
  qed
qed

section \<open>Sequences of calls\<close>

lemma resize_frame: "hist (snd (resize P w h s)) = hist s"
  by (simp add: resize_def hist_def Let_def set_canvas_height_def set_canvas_width_def
      set_temp_height_def set_temp_width_def split: sum.splits)

lemma step_hist_cases:
  "hist (step P a s) = hist s
   \<or> (pushes P a s \<and> (\<exists>s0. hist s0 = hist s \<and> saveState s0 = (Inr (), step P a s)))
   \<or> (a = Undo \<and> 1 < length (undoStack s)
        \<and> hist (step P a s) = (butlast (undoStack s), redoStack s @ [last (undoStack s)], maxUndoSteps s))
   \<or> (a = Redo \<and> 0 < length (redoStack s)
        \<and> hist (step P a s) = (undoStack s @ [last (redoStack s)], butlast (redoStack s), maxUndoSteps s))
   \<or> (a = Destroy \<and> hist (step P a s) = ([], [], maxUndoSteps s))"
proof (cases a)
  case (SetTool tool)
  then show ?thesis
    by (simp add: setTool_def warn_invalid_tool_def hist_def split: jsvalue.splits option.splits)
next
  case (SetColor color)
  then show ?thesis by (simp add: setColor_def hist_def)
next
  case (SetStrokeWidth w)
  then show ?thesis by (simp add: setStrokeWidth_def hist_def Let_def)
next
  case Undo
  then show ?thesis by (simp add: undo_eq hist_def)
next
  case Redo
  then show ?thesis by (simp add: redo_eq hist_def)
next
  case Clear
  have "clear P s = (fst (clear P s), snd (clear P s))" by simp
  with Clear clear_cases [of P s] show ?thesis
    by (cases "fst (clear P s)") (auto simp del: prod.collapse)
next
  case (Resize w h)
  then show ?thesis by (simp add: resize_frame)
next
  case (ExportImage format)
  then show ?thesis by simp
next
  case Destroy
  then show ?thesis by (simp add: destroy_def hist_def)
next
  case (Start e)
  then show ?thesis by (simp add: handleStart_frame)
next
  case (Move e)
  then show ?thesis by (simp add: handleMove_frame)
next
  case (End e)
  have "handleEnd P e s = (fst (handleEnd P e s), snd (handleEnd P e s))" by simp
  with End handleEnd_cases [of P e s] show ?thesis
    by (cases "fst (handleEnd P e s)") (auto simp del: prod.collapse)
next
  case (WindowResize ow oh)
  then show ?thesis by (simp add: handleResize_is_resize resize_frame)
qed

lemma hist_saved:
  assumes "saveState s0 = (Inr (), s')"
  shows "hist s' = ((if length (undoStack s0) < maxUndoSteps s0 then undoStack s0 @ [canvas s0]
                     else tl (undoStack s0 @ [canvas s0])), [], maxUndoSteps s0)"
  using saveState_Inr [OF assms] by (simp add: hist_def)

lemma hist_ok_step:
  assumes "hist_ok s"
  shows "hist_ok (step P a s) \<and> maxUndoSteps (step P a s) = maxUndoSteps s"
proof -
  from assms have ok: "length (undoStack s) + length (redoStack s) \<le> maxUndoSteps s"
    by (simp add: hist_ok_def)
  consider (same) "hist (step P a s) = hist s"
    | (push) s0 where "hist s0 = hist s" "saveState s0 = (Inr (), step P a s)"
    | (undone) "1 < length (undoStack s)"
        "hist (step P a s) = (butlast (undoStack s), redoStack s @ [last (undoStack s)], maxUndoSteps s)"
    | (redone) "0 < length (redoStack s)"
        "hist (step P a s) = (undoStack s @ [last (redoStack s)], butlast (redoStack s), maxUndoSteps s)"
    | (destroy) "hist (step P a s) = ([], [], maxUndoSteps s)"
    using step_hist_cases [of P a s] by blast
  then show ?thesis
  proof cases
    case same
    with ok show ?thesis by (simp add: hist_ok_def hist_def)
  next
    case push
    from hist_saved [OF push(2)] push(1) ok show ?thesis
      by (auto simp: hist_ok_def hist_def)
  next
    case undone
    then have "length (butlast (undoStack s)) + length (redoStack s @ [last (undoStack s)])
                 = length (undoStack s) + length (redoStack s)"
      by simp
    with undone(2) ok show ?thesis by (simp add: hist_ok_def hist_def)
  next
    case redone
    then have "length (undoStack s @ [last (redoStack s)]) + length (butlast (redoStack s))
                 = length (undoStack s) + length (redoStack s)"
      by simp
    with redone(2) ok show ?thesis by (simp add: hist_ok_def hist_def)
  next
    case destroy
    then show ?thesis by (simp add: hist_ok_def hist_def)
  qed
qed

lemma hist_ok_run: "hist_ok s \<Longrightarrow> hist_ok (run P ops s) \<and> maxUndoSteps (run P ops s) = maxUndoSteps s"
proof (induction ops arbitrary: s)
  case Nil
  then show ?case by simp
next
  case (Cons a ops)
  from hist_ok_step [OF Cons.prems, of P a] Cons.IH [of "step P a s"]
  show ?case by simp
qed

lemma map_const_upt: "map (\<lambda>x. k) [0..<n] = replicate n k"
  by (induction n) (simp_all add: replicate_append_same)

lemma initializeCanvas_canvas:
  "canvas (initializeCanvas P ow oh s) = filled ow oh white"
  by (simp add: initializeCanvas_def Let_def set_canvas_height_def set_canvas_width_def
      set_temp_height_def set_temp_width_def fillRect_def css_pixel_def source_over_def
      white_def filled_def map_const_upt)

lemma DrawingEngine_Inr:
  assumes "DrawingEngine P ow oh = (Inr (), s0)"
  shows "undoStack s0 = [filled ow oh white]" "redoStack s0 = []" "maxUndoSteps s0 = 50"
    "canvas s0 = filled ow oh white" "\<not> isDrawing s0"
proof -
  let ?i = "initializeCanvas P ow oh
       \<lparr>canvas = blank 300 150, ctx = default_context, currentTool = ''freehand'',
        currentColor = ''#000000'', strokeWidth = Fin 2, isDrawing = False,
        startX = Fin 0, startY = Fin 0, lastX = Fin 0, lastY = Fin 0,
        undoStack = [], redoStack = [], maxUndoSteps = 50, tempCanvas = blank 300 150\<rparr>"
  have i: "undoStack ?i = []" "maxUndoSteps ?i = 50" "\<not> isDrawing ?i"
    by (simp_all add: initializeCanvas_def Let_def set_canvas_height_def set_canvas_width_def
        set_temp_height_def set_temp_width_def)
  from assms have "saveState ?i = (Inr (), s0)" by (simp add: DrawingEngine_def)
  from saveState_Inr [OF this] i initializeCanvas_canvas [of P ow oh]
  show "undoStack s0 = [filled ow oh white]" "redoStack s0 = []" "maxUndoSteps s0 = 50"
    "canvas s0 = filled ow oh white" "\<not> isDrawing s0"
    by simp_all
qed

lemma rooted_mono: "rooted b n s \<Longrightarrow> rooted b (Suc n) s"
  by (auto simp: rooted_def)

lemma rooted_step:
  assumes "rooted b n s" and "a \<noteq> Destroy"
  shows "rooted b (if pushes P a s then Suc n else n) (step P a s)"
proof -
  from assms(1) have ne: "undoStack s \<noteq> []" and mx: "maxUndoSteps s = 50"
    by (simp_all add: rooted_def)
  consider (same) "hist (step P a s) = hist s"
    | (push) s0 where "pushes P a s" "hist s0 = hist s" "saveState s0 = (Inr (), step P a s)"
    | (undone) "a = Undo" "1 < length (undoStack s)"
        "hist (step P a s) = (butlast (undoStack s), redoStack s @ [last (undoStack s)], maxUndoSteps s)"
    | (redone) "a = Redo" "0 < length (redoStack s)"
        "hist (step P a s) = (undoStack s @ [last (redoStack s)], butlast (redoStack s), maxUndoSteps s)"
    using step_hist_cases [of P a s] assms(2) by blast
  then show ?thesis
  proof cases
    case same
    then have "rooted b n (step P a s)"
      using assms(1) by (simp add: rooted_def hist_def)
    then show ?thesis by (simp add: rooted_mono)
  next
    case push
    from hist_saved [OF push(3)] push(2)
    have h: "hist (step P a s) = ((if length (undoStack s) < 50 then undoStack s @ [canvas s0]
                     else tl (undoStack s @ [canvas s0])), [], 50)"
      using mx by (simp add: hist_def)
    have "rooted b (Suc n) (step P a s)"
      using h ne assms(1) by (cases "undoStack s") (auto simp: rooted_def hist_def)
    with push(1) show ?thesis by simp
  next
    case undone
    then have "butlast (undoStack s) \<noteq> []" "hd (butlast (undoStack s)) = hd (undoStack s)"
      by (cases "undoStack s"; cases "tl (undoStack s)"; auto)+
    with undone assms(1) show ?thesis by (auto simp: rooted_def hist_def)
  next
    case redone
    then have "length (undoStack s @ [last (redoStack s)]) + length (butlast (redoStack s))
                 = length (undoStack s) + length (redoStack s)"
      by simp
    with redone(1,3) assms(1) ne show ?thesis
      by (auto simp: rooted_def hist_def)
  qed
qed

lemma rooted_run:
  "rooted b n s \<Longrightarrow> Destroy \<notin> set ops \<Longrightarrow> rooted b (n + commits P ops s) (run P ops s)"
proof (induction ops arbitrary: s n)
  case Nil
  then show ?case by simp
next
  case (Cons a ops)
  from Cons.prems have "rooted b (if pushes P a s then Suc n else n) (step P a s)"
    by (intro rooted_step) auto
  from Cons.IH [OF this] Cons.prems(2) show ?case by (auto split: if_splits)
qed

section \<open>The buffers of a constructed engine\<close>

lemma paint_sel [simp]:
  "width (paint P c b) = width b" "height (paint P c b) = height b" "wf_image (paint P c b)"
  by (simp_all add: paint_def wf_image_def list_all_iff)

lemma fillRect_sel [simp]:
  "width (fillRect P c b) = width b" "height (fillRect P c b) = height b" "wf_image (fillRect P c b)"
  by (simp_all add: fillRect_def wf_image_def list_all_iff)

lemma clearRect_sel [simp]:
  "width (clearRect b) = width b" "height (clearRect b) = height b" "wf_image (clearRect b)"
  by (simp_all add: clearRect_def)

lemma drawImage_sel:
  assumes "drawImage P a b = Inr t"
  shows "width t = width b" "height t = height b" "wf_image b \<Longrightarrow> wf_image t"
  using assms
  by (auto simp: drawImage_def wf_image_def list_all_length overlay_nth split: if_splits)

lemma saveState_buffers [simp]:
  "canvas (snd (saveState s)) = canvas s" "tempCanvas (snd (saveState s)) = tempCanvas s"
  using saveState_cases [of s] by auto

lemma sized_saveState: "sized (snd (saveState s)) = sized s"
  by (simp add: sized_def)

lemma sized_drawShape: "sized s \<Longrightarrow> sized (snd (drawShape P x y s))"
proof -
  assume s: "sized s"
  show ?thesis
  proof (cases "drawImage P (tempCanvas s) (clearRect (canvas s))")
    case (Inl err)
    with s show ?thesis by (simp add: drawShape_def sized_def Let_def)
  next
    case (Inr b)
    from drawImage_sel [OF Inr] s show ?thesis
      by (simp add: drawShape_def sized_def Let_def Inr drawShapePath_def)
  qed
qed

lemma drawShapePreview_is_drawShape: "drawShapePreview P x y s = drawShape P x y s"
  by (simp add: drawShapePreview_def drawShape_def)

lemma sized_handleStart: "sized s \<Longrightarrow> sized (snd (handleStart P e s))"
proof -
  assume s: "sized s"
  show ?thesis
  proof (cases "getCoordinates P (s\<lparr>isDrawing := True\<rparr>) e")
    case (Inl err)
    with s show ?thesis by (simp add: handleStart_def sized_def Let_def)
  next
    case (Inr xy)
    obtain x y where xy: "xy = (x, y)" by (cases xy)
    show ?thesis
    proof (cases "drawImage P (canvas s) (clearRect (tempCanvas s))")
      case Inl
      with s Inr xy show ?thesis by (simp add: handleStart_def sized_def Let_def)
    next
      case d: (Inr t)
      from drawImage_sel(1,2) [OF d] s Inr xy d show ?thesis
        by (simp add: handleStart_def sized_def Let_def)
    qed
  qed
qed

lemma sized_handleMove: "sized s \<Longrightarrow> sized (snd (handleMove P e s))"
proof -
  assume s: "sized s"
  show ?thesis
  proof (cases "isDrawing s")
    case False
    with s show ?thesis by (simp add: handleMove_def)
  next
    case True
    show ?thesis
    proof (cases "getCoordinates P s e")
      case (Inl err)
      with True s show ?thesis by (simp add: handleMove_def)
    next
      case (Inr xy)
      obtain x y where xy: "xy = (x, y)" by (cases xy)
      show ?thesis
      proof (cases "currentTool s = ''freehand''")
        case free: True
        with True Inr xy s show ?thesis
          by (simp add: handleMove_def drawFreehand_def sized_def Let_def)
      next
        case shape: False
        obtain c s1 where d: "drawShape P x y s = (c, s1)" by (cases "drawShape P x y s")
        with sized_drawShape [OF s, of P x y] have "sized s1" by simp
        with True Inr xy shape d show ?thesis
          by (cases c) (simp_all add: handleMove_def drawShapePreview_is_drawShape sized_def)
      qed
    qed
  qed
qed

lemma sized_handleEnd: "sized s \<Longrightarrow> sized (snd (handleEnd P e s))"
proof -
  assume s: "sized s"
  show ?thesis
  proof (cases "isDrawing s")
    case False
    with s show ?thesis by (simp add: handleEnd_def)
  next
    case True
    define r where "r = (if currentTool s \<noteq> ''freehand'' then
                 (case getCoordinates P s e of
                    Inl err \<Rightarrow> (Inl err, s)
                  | Inr (x, y) \<Rightarrow> drawShape P x y s)
               else (Inr (), s))"
    have sr: "sized (snd r)"
      using s by (auto simp: r_def sized_drawShape split: sum.splits prod.splits)
    have he: "handleEnd P e s = (case r of (Inl err, s1) \<Rightarrow> (Inl err, s1)
         | (Inr u, s1) \<Rightarrow> saveState (s1\<lparr>isDrawing := False\<rparr>))"
      using True by (simp add: handleEnd_def r_def)
    obtain c s1 where r: "r = (c, s1)" by (cases r)
    with sr have "sized s1" by simp
    then have "sized (s1\<lparr>isDrawing := False\<rparr>)" by (simp add: sized_def)
    with he r \<open>sized s1\<close> show ?thesis
      by (cases c) (simp_all add: sized_saveState)
  qed
qed

lemma sized_resize: "sized (snd (resize P w h s)) \<or> snd (resize P w h s) = s"
  by (auto simp: resize_def sized_def Let_def set_canvas_height_def set_canvas_width_def
      set_temp_height_def set_temp_width_def wf_putImageData split: sum.splits)

lemma sized_clear: "sized s \<Longrightarrow> sized (snd (clear P s))"
  by (simp add: clear_def Let_def sized_saveState) (simp add: sized_def)

lemma sized_step: "sized s \<Longrightarrow> sized (step P a s)"
proof (cases a)
  case (SetTool tool)
  then show "sized s \<Longrightarrow> ?thesis"
    by (simp add: setTool_def warn_invalid_tool_def sized_def split: jsvalue.splits option.splits)
next
  case Undo
  then show "sized s \<Longrightarrow> ?thesis" by (simp add: undo_eq sized_def wf_putImageData)
next
  case Redo
  then show "sized s \<Longrightarrow> ?thesis" by (simp add: redo_eq sized_def wf_putImageData)
next
  case (Resize w h)
  then show "sized s \<Longrightarrow> ?thesis" using sized_resize [of P w h s] by auto
next
  case (WindowResize w h)
  then show "sized s \<Longrightarrow> ?thesis" using sized_resize [of P w h s] by (auto simp: handleResize_is_resize)
qed (simp_all add: setColor_def setStrokeWidth_def destroy_def sized_def Let_def sized_clear [unfolded sized_def]
      sized_handleStart [unfolded sized_def] sized_handleMove [unfolded sized_def]
      sized_handleEnd [unfolded sized_def])

lemma sized_run: "sized s \<Longrightarrow> sized (run P ops s)"
  by (induction ops arbitrary: s) (simp_all add: sized_step)

lemma sized_DrawingEngine: "sized (snd (DrawingEngine P ow oh))"
  by (simp add: DrawingEngine_def sized_saveState)
     (simp add: sized_def initializeCanvas_def Let_def set_canvas_height_def set_canvas_width_def
      set_temp_height_def set_temp_width_def)

text \<open>Every state a constructed engine reaches has buffers of this form.\<close>

lemma constructed_sized: "sized (run P ops (snd (DrawingEngine P ow oh)))"
  by (rule sized_run) (rule sized_DrawingEngine)

lemma map_length_uniform: "list_all (\<lambda>r. length r = w) xs \<Longrightarrow> map length xs = replicate (length xs) w"
  by (induction xs) simp_all

lemma wf_same_shape:
  assumes "wf_image a" "wf_image b" "width a = width b" "height a = height b"
  shows "same_shape a b"
proof -
  have "map length (rows a) = replicate (height a) (width a)"
    using assms(1) map_length_uniform [of "width a" "rows a"] by (simp add: wf_image_def)
  moreover have "map length (rows b) = replicate (height b) (width b)"
    using assms(2) map_length_uniform [of "width b" "rows b"] by (simp add: wf_image_def)
  ultimately show ?thesis using assms(3,4) by (simp add: same_shape_def)
qed

lemma snapshots_wf_step:
  assumes "sized s" and "snapshots_wf s"
  shows "snapshots_wf (step P a s)"
proof -
  from assms(2) have u: "list_all wf_image (undoStack s)" and r: "list_all wf_image (redoStack s)"
    by (simp_all add: snapshots_wf_def)
  have c: "wf_image (canvas (step P a s))"
    using sized_step [OF assms(1), of P a] by (simp add: sized_def)
  consider (same) "hist (step P a s) = hist s"
    | (push) s0 where "hist s0 = hist s" "saveState s0 = (Inr (), step P a s)"
    | (undone) "1 < length (undoStack s)"
        "hist (step P a s) = (butlast (undoStack s), redoStack s @ [last (undoStack s)], maxUndoSteps s)"
    | (redone) "0 < length (redoStack s)"
        "hist (step P a s) = (undoStack s @ [last (redoStack s)], butlast (redoStack s), maxUndoSteps s)"
    | (destroy) "hist (step P a s) = ([], [], maxUndoSteps s)"
    using step_hist_cases [of P a s] by blast
  then show ?thesis
  proof cases
    case same
    with u r show ?thesis by (simp add: snapshots_wf_def hist_def)
  next
    case push
    from saveState_Inr [OF push(2)] have "canvas (step P a s) = canvas s0" by simp
    with c have w: "wf_image (canvas s0)" by simp
    have "list_all wf_image (tl (undoStack s @ [canvas s0]))"
      using u w by (cases "undoStack s") simp_all
    with hist_saved [OF push(2)] push(1) u w show ?thesis
      by (auto simp: snapshots_wf_def hist_def)
  next
    case undone
    then have ne: "undoStack s \<noteq> []" by auto
    with u have "wf_image (last (undoStack s))" "list_all wf_image (butlast (undoStack s))"
      by (auto simp: list_all_iff dest: in_set_butlastD)
    with undone(2) r show ?thesis by (simp add: snapshots_wf_def hist_def)
  next
    case redone
    then have ne: "redoStack s \<noteq> []" by auto
    with r have "wf_image (last (redoStack s))" "list_all wf_image (butlast (redoStack s))"
      by (auto simp: list_all_iff dest: in_set_butlastD)
    with redone(2) u show ?thesis by (simp add: snapshots_wf_def hist_def)
  next
    case destroy
    then show ?thesis by (simp add: snapshots_wf_def hist_def)
  qed
qed

lemma snapshots_wf_run: "sized s \<Longrightarrow> snapshots_wf s \<Longrightarrow> snapshots_wf (run P ops s)"
  by (induction ops arbitrary: s) (simp_all add: sized_step snapshots_wf_step)

text \<open>Every state a constructed engine reaches has well-formed snapshots.\<close>

lemma constructed_snapshots_wf:
  assumes "DrawingEngine P ow oh = (Inr (), s0)"
  shows "snapshots_wf (run P ops s0)"
proof -
  have "sized s0"
    using sized_DrawingEngine [of P ow oh] assms by simp
  moreover have "snapshots_wf s0"
    using DrawingEngine_Inr(1,2) [OF assms]
    by (simp add: snapshots_wf_def wf_image_def filled_def list_all_iff)
  ultimately show ?thesis by (rule snapshots_wf_run)
qed

section \<open>Tool state\<close>

lemma Math_clamp_Fin:
  "Math_max (Fin 1) (Math_min (Fin r) (Fin 50)) = Fin (max 1 (min r 50))"
  by (simp add: Math_max_def Math_min_def max_def min_def)

text \<open>
  C5, as the code has it. For every numeric input other than \<open>NaN\<close>,
  \<open>setStrokeWidth\<close> stores (and hands to the context) a number of the closed interval
  from 1 to 50: an input below 1 becomes 1, an input above 50 becomes 50, an input
  within the interval is stored as it is. The stored value is therefore an integer
  whenever the input is one. Nothing is rejected: the method has no failing outcome.
\<close>

theorem setStrokeWidth_clamps:
  assumes "w \<noteq> NaN"
  shows "\<exists>r. strokeWidth (setStrokeWidth w s) = Fin r \<and> lineWidth (ctx (setStrokeWidth w s)) = Fin r
           \<and> 1 \<le> r \<and> r \<le> 50
           \<and> (js_lt w (Fin 1) \<longrightarrow> r = 1)
           \<and> (js_lt (Fin 50) w \<longrightarrow> r = 50)
           \<and> (\<not> js_lt w (Fin 1) \<and> \<not> js_lt (Fin 50) w \<longrightarrow> w = Fin r)
           \<and> (w \<in> Fin ` \<int> \<longrightarrow> r \<in> \<int>)"
proof (cases w)
  case NaN
  with assms show ?thesis by simp
next
  case NegInf
  then show ?thesis
    by (auto simp: setStrokeWidth_def Math_max_def Math_min_def set_lineWidth_def Let_def)
next
  case (Fin x)
  have "max 1 (min x 50) \<in> \<int>" if "x \<in> \<int>"
    using that by (simp add: max_def min_def)
  with Fin show ?thesis
    by (auto simp: setStrokeWidth_def Math_clamp_Fin set_lineWidth_def Let_def)
next
  case PosInf
  then show ?thesis
    by (auto simp: setStrokeWidth_def Math_max_def Math_min_def set_lineWidth_def Let_def)
qed

theorem setStrokeWidth_clamps_witness:
  "Fin 0 \<noteq> NaN \<and> strokeWidth (setStrokeWidth (Fin 0) (fresh 1 1)) = Fin 1
   \<and> strokeWidth (setStrokeWidth (Fin 999) (fresh 1 1)) = Fin 50
   \<and> strokeWidth (setStrokeWidth (Fin 7) (fresh 1 1)) = Fin 7"
  using setStrokeWidth_clamps [of "Fin 0" "fresh 1 1"]
    setStrokeWidth_clamps [of "Fin 999" "fresh 1 1"]
    setStrokeWidth_clamps [of "Fin 7" "fresh 1 1"]
  by auto

text \<open>
  C5 as stated fails: the width 2.5 is numeric and lies within the range, and the
  value stored for it is 2.5, which is not an integer.
\<close>

theorem setStrokeWidth_fraction_counterexample:
  "strokeWidth (setStrokeWidth (Fin (5 / 2)) (fresh 1 1)) = Fin (5 / 2) \<and> (5 / 2 :: real) \<notin> \<int>"
proof -
  have "frac (5 / 2 :: real) \<noteq> 0"
    by (simp add: frac_def)
  then have "(5 / 2 :: real) \<notin> \<int>"
    by (simp add: frac_eq_0_iff)
  then show ?thesis
    by (simp add: setStrokeWidth_def Math_max_def Math_min_def)
qed

text \<open>
  C6, as the code has it. For every input that is not one of the four tool
  identifiers, \<open>setTool\<close> leaves the engine exactly as it was: \<open>currentTool\<close> and
  every other field are unchanged. When the input is neither a symbol nor an object
  whose conversion to a string raises (so for every undefined, null, boolean, number
  and string) the call returns normally. For each of the four identifiers it sets
  \<open>currentTool\<close> to that identifier, changes nothing else and returns normally.
\<close>

theorem setTool_validates:
  "(tool \<notin> JSString ` set validTools \<longrightarrow> snd (setTool tool s) = s)
   \<and> (tool \<notin> JSString ` set validTools \<and> (\<forall>d. tool \<noteq> JSSymbol d)
        \<and> (\<forall>err. tool \<noteq> JSObject (Some err)) \<longrightarrow> setTool tool s = (Inr (), s))
   \<and> (t \<in> set validTools \<longrightarrow> setTool (JSString t) s = (Inr (), s\<lparr>currentTool := t\<rparr>))
   \<and> validTools = [''freehand'', ''rectangle'', ''circle'', ''line'']"
proof -
  have a: "snd (setTool tool s) = s" if "tool \<notin> JSString ` set validTools"
    using that
    by (cases tool) (auto simp: setTool_def warn_invalid_tool_def split: option.splits)
  have b: "setTool tool s = (Inr (), s)"
    if "tool \<notin> JSString ` set validTools" "\<forall>d. tool \<noteq> JSSymbol d"
       "\<forall>err. tool \<noteq> JSObject (Some err)"
  proof (cases tool)
    case (JSObject r)
    with that(3) have "r = None" by (cases r) auto
    with JSObject show ?thesis by (simp add: setTool_def warn_invalid_tool_def)
  qed (use that in \<open>auto simp: setTool_def warn_invalid_tool_def\<close>)
  have c: "setTool (JSString t) s = (Inr (), s\<lparr>currentTool := t\<rparr>)" if "t \<in> set validTools"
    using that by (simp add: setTool_def)
  from a b c show ?thesis by (simp add: validTools_def)
qed

theorem setTool_validates_witness:
  "JSString ''hexagon'' \<notin> JSString ` set validTools
   \<and> setTool (JSString ''hexagon'') (fresh 1 1) = (Inr (), fresh 1 1)
   \<and> JSNull \<notin> JSString ` set validTools
   \<and> setTool JSNull (fresh 1 1) = (Inr (), fresh 1 1)
   \<and> JSSymbol ''hexagon'' \<notin> JSString ` set validTools
   \<and> snd (setTool (JSSymbol ''hexagon'') (fresh 1 1)) = fresh 1 1
   \<and> ''circle'' \<in> set validTools
   \<and> setTool (JSString ''circle'') (fresh 1 1) = (Inr (), (fresh 1 1)\<lparr>currentTool := ''circle''\<rparr>)"
proof -
  have a: "JSString ''hexagon'' \<notin> JSString ` set validTools"
    by (auto simp: validTools_def)
  have b: "''circle'' \<in> set validTools"
    by (simp add: validTools_def)
  have c: "JSNull \<notin> JSString ` set validTools" "JSSymbol ''hexagon'' \<notin> JSString ` set validTools"
    by auto
  have d: "\<forall>d. JSString ''hexagon'' \<noteq> JSSymbol d" "\<forall>err. JSString ''hexagon'' \<noteq> JSObject (Some err)"
    "\<forall>d. JSNull \<noteq> JSSymbol d" "\<forall>err. JSNull \<noteq> JSObject (Some err)"
    by simp_all
  from setTool_validates [of "JSString ''hexagon''" "fresh 1 1" "''circle''"]
    setTool_validates [of JSNull "fresh 1 1" "''circle''"]
    setTool_validates [of "JSSymbol ''hexagon''" "fresh 1 1" "''circle''"]
    a b c d
  show ?thesis by blast
qed

text \<open>
  C6 as stated fails where it says that no input makes \<open>setTool\<close> throw: a symbol is
  not one of the four identifiers, and building the warning text for it raises a
  \<open>TypeError\<close>. The engine is unchanged all the same.
\<close>

theorem setTool_symbol_counterexample:
  "setTool (JSSymbol ''hexagon'') (fresh 1 1) = (Inl TypeError, fresh 1 1)"
  by (simp add: setTool_def warn_invalid_tool_def)

section \<open>Resizing\<close>

text \<open>
  C7, as the code has it. For every well-formed surface (as every surface of a
  constructed engine is) of non-zero width and height and every new width and
  height, \<open>resize\<close> returns normally; afterwards the surface buffer and the scratch
  buffer have the new dimensions, every pixel of the surface that lies within the
  prior buffer holds the prior pixel at the same position (content is copied at the
  origin at 1:1 scale, so shrinking crops) and every other pixel, the new margin
  after enlarging, is transparent black, the value of a cleared buffer; the scratch
  buffer is cleared. Then the stored stroke colour is assigned to the context when it
  is a colour the backend accepts (otherwise the context keeps the black of a reset
  context), and the stored stroke width when it is a positive finite number. Neither
  history stack
  changes. On a surface of width or height zero \<open>resize\<close> raises \<open>IndexSizeError\<close>
  and changes nothing. The host-driven \<open>_handleResize\<close> does the same with the
  layout size.
\<close>

theorem resize_copies:
  "(wf_image (canvas s) \<and> width (canvas s) \<noteq> 0 \<and> height (canvas s) \<noteq> 0 \<longrightarrow>
      (\<exists>s'. resize P w h s = (Inr (), s')
         \<and> width (canvas s') = w \<and> height (canvas s') = h \<and> wf_image (canvas s')
         \<and> tempCanvas s' = blank w h
         \<and> (\<forall>x y. x < w \<and> y < h \<longrightarrow>
               pixel_at (canvas s') x y =
                 (if x < width (canvas s) \<and> y < height (canvas s) then pixel_at (canvas s) x y
                  else transparent))
         \<and> strokeStyle (ctx s') = (if css_valid P (currentColor s) then currentColor s else ''#000000'')
         \<and> (\<forall>r. strokeWidth s = Fin r \<and> 0 < r \<longrightarrow> lineWidth (ctx s') = Fin r)
         \<and> undoStack s' = undoStack s \<and> redoStack s' = redoStack s))
   \<and> (width (canvas s) = 0 \<or> height (canvas s) = 0 \<longrightarrow> resize P w h s = (Inl IndexSizeError, s))
   \<and> handleResize P w h s = resize P w h s"
proof -
  have fail: "resize P w h s = (Inl IndexSizeError, s)" if "width (canvas s) = 0 \<or> height (canvas s) = 0"
    using that by (auto simp: resize_def getImageData_def)
  have ok: "\<exists>s'. resize P w h s = (Inr (), s')
         \<and> width (canvas s') = w \<and> height (canvas s') = h \<and> wf_image (canvas s')
         \<and> tempCanvas s' = blank w h
         \<and> (\<forall>x y. x < w \<and> y < h \<longrightarrow>
               pixel_at (canvas s') x y =
                 (if x < width (canvas s) \<and> y < height (canvas s) then pixel_at (canvas s) x y
                  else transparent))
         \<and> strokeStyle (ctx s') = (if css_valid P (currentColor s) then currentColor s else ''#000000'')
         \<and> (\<forall>r. strokeWidth s = Fin r \<and> 0 < r \<longrightarrow> lineWidth (ctx s') = Fin r)
         \<and> undoStack s' = undoStack s \<and> redoStack s' = redoStack s"
    if wf: "wf_image (canvas s)" and nz: "width (canvas s) \<noteq> 0" "height (canvas s) \<noteq> 0"
  proof -
    define s' where "s' = applyContextSettings P
      (s\<lparr>canvas := putImageData (canvas s) (blank w h), ctx := default_context, tempCanvas := blank w h\<rparr>)"
    have r: "resize P w h s = (Inr (), s')"
      using nz by (simp add: resize_def getImageData_def s'_def Let_def set_canvas_height_def
          set_canvas_width_def set_temp_height_def set_temp_width_def blank_def filled_def
          applyContextSettings_def)
    have c: "canvas s' = putImageData (canvas s) (blank w h)"
      by (simp add: s'_def applyContextSettings_def)
    have px: "pixel_at (canvas s') x y =
                 (if x < width (canvas s) \<and> y < height (canvas s) then pixel_at (canvas s) x y
                  else transparent)" if "x < w" "y < h" for x y
      using that wf unfolding c pixel_at_putImageData
      by (auto simp: wf_image_def list_all_length)
    have "\<forall>r. strokeWidth s = Fin r \<and> 0 < r \<longrightarrow> lineWidth (ctx s') = Fin r"
      by (simp add: s'_def applyContextSettings_def set_lineWidth_def set_strokeStyle_def)
    moreover have "strokeStyle (ctx s') = (if css_valid P (currentColor s) then currentColor s else ''#000000'')"
      by (simp add: s'_def applyContextSettings_def set_lineWidth_def set_strokeStyle_def
          default_context_def split: jsnum.splits)
    moreover have "wf_image (canvas s')"
      unfolding c by (rule wf_putImageData) simp
    moreover have "width (canvas s') = w" "height (canvas s') = h"
      unfolding c by simp_all
    moreover have "tempCanvas s' = blank w h" "undoStack s' = undoStack s" "redoStack s' = redoStack s"
      by (simp_all add: s'_def applyContextSettings_def)
    ultimately show ?thesis using r px by blast
  qed
  from ok fail handleResize_is_resize show ?thesis by blast
qed

theorem resize_copies_witness:
  "wf_image (canvas (fresh 2 2)) \<and> width (canvas (fresh 2 2)) \<noteq> 0 \<and> height (canvas (fresh 2 2)) \<noteq> 0
   \<and> fst (resize test_platform 3 1 (fresh 2 2)) = Inr ()
   \<and> width (canvas (snd (resize test_platform 3 1 (fresh 2 2)))) = 3
   \<and> height (canvas (snd (resize test_platform 3 1 (fresh 2 2)))) = 1
   \<and> tempCanvas (snd (resize test_platform 3 1 (fresh 2 2))) = blank 3 1
   \<and> pixel_at (canvas (snd (resize test_platform 3 1 (fresh 2 2)))) 1 0 = pixel_at (canvas (fresh 2 2)) 1 0
   \<and> pixel_at (canvas (snd (resize test_platform 3 1 (fresh 2 2)))) 2 0 = transparent
   \<and> strokeWidth (fresh 2 2) = Fin 2
   \<and> lineWidth (ctx (snd (resize test_platform 3 1 (fresh 2 2)))) = Fin 2
   \<and> currentColor recoloured = ''#ff0000'' \<and> css_valid test_platform ''#ff0000''
   \<and> strokeStyle (ctx (snd (resize test_platform 3 1 recoloured))) = ''#ff0000''
   \<and> currentColor miscoloured = ''not-a-color'' \<and> \<not> css_valid test_platform ''not-a-color''
   \<and> strokeStyle (ctx (snd (resize test_platform 3 1 miscoloured))) = ''#000000''
   \<and> width (canvas collapsed) = 0
   \<and> resize test_platform 3 1 collapsed = (Inl IndexSizeError, collapsed)"
proof -
  have h: "wf_image (canvas (fresh 2 2)) \<and> width (canvas (fresh 2 2)) \<noteq> 0 \<and> height (canvas (fresh 2 2)) \<noteq> 0"
    by (simp add: fresh_2_2_eval wf_image_def)
  have w: "strokeWidth (fresh 2 2) = Fin 2"
    by (simp add: fresh_2_2_eval)
  have d: "width (canvas (fresh 2 2)) = 2" "height (canvas (fresh 2 2)) = 2"
    by (simp_all add: fresh_2_2_eval)
  have v: "css_valid test_platform ''#ff0000''" "\<not> css_valid test_platform ''not-a-color''"
    by (simp_all add: css_valid_def test_platform_def hex_color_def)
  have r: "canvas recoloured = canvas (fresh 2 2)" "currentColor recoloured = ''#ff0000''"
    and m: "canvas miscoloured = canvas (fresh 2 2)" "currentColor miscoloured = ''not-a-color''"
    by (simp_all add: recoloured_def miscoloured_def setColor_def)
  have z: "width (canvas collapsed) = 0"
    by (simp add: collapsed_eval)
  from resize_copies [where s = collapsed and P = test_platform and w = 3 and h = 1] z
  have c: "resize test_platform 3 1 collapsed = (Inl IndexSizeError, collapsed)"
    by blast
  from h w resize_copies [where s = "fresh 2 2" and P = test_platform and w = 3 and h = 1] have
    "fst (resize test_platform 3 1 (fresh 2 2)) = Inr ()
   \<and> width (canvas (snd (resize test_platform 3 1 (fresh 2 2)))) = 3
   \<and> height (canvas (snd (resize test_platform 3 1 (fresh 2 2)))) = 1
   \<and> tempCanvas (snd (resize test_platform 3 1 (fresh 2 2))) = blank 3 1
   \<and> pixel_at (canvas (snd (resize test_platform 3 1 (fresh 2 2)))) 1 0 = pixel_at (canvas (fresh 2 2)) 1 0
   \<and> pixel_at (canvas (snd (resize test_platform 3 1 (fresh 2 2)))) 2 0 = transparent
   \<and> lineWidth (ctx (snd (resize test_platform 3 1 (fresh 2 2)))) = Fin 2"
    by (auto simp: d)
  moreover from h r v resize_copies [where s = recoloured and P = test_platform and w = 3 and h = 1]
  have "strokeStyle (ctx (snd (resize test_platform 3 1 recoloured))) = ''#ff0000''"
    by auto
  moreover from h m v resize_copies [where s = miscoloured and P = test_platform and w = 3 and h = 1]
  have "strokeStyle (ctx (snd (resize test_platform 3 1 miscoloured))) = ''#000000''"
    by auto
  ultimately show ?thesis
    using h w z c v r(2) m(2) by blast
qed

text \<open>
  C7 as stated fails where it says that enlarging reveals the background colour: a
  one-pixel surface holds the white background, and after \<open>resize(2, 1)\<close> the new
  pixel is transparent black, not white.
\<close>

theorem resize_margin_counterexample:
  "canvas (fresh 1 1) = filled 1 1 white
   \<and> fst (resize test_platform 2 1 (fresh 1 1)) = Inr ()
   \<and> pixel_at (canvas (snd (resize test_platform 2 1 (fresh 1 1)))) 0 0 = white
   \<and> pixel_at (canvas (snd (resize test_platform 2 1 (fresh 1 1)))) 1 0 = RGBA 0 0 0 0
   \<and> RGBA 0 0 0 0 \<noteq> white"
  unfolding fresh_1_1_eval by code_simp

section \<open>Undo\<close>

text \<open>
  C3, as the code has it. When the undo stack holds at most one snapshot, \<open>undo\<close>
  returns false and the engine (surface, both stacks, everything else) is unchanged;
  this is the case of a freshly constructed engine. Otherwise \<open>undo\<close> returns true,
  the top of the undo stack is removed and pushed onto the redo stack, and the new
  top of the undo stack is written onto the surface at the origin: the surface keeps
  its dimensions, every pixel that both the surface and the snapshot have takes the
  snapshot's value, and every other pixel of the surface keeps its value. So the
  surface equals that snapshot whenever the two have the same dimensions (both being
  well-formed bitmaps, as the surface and the snapshots of a constructed engine always
  are), which is the case when the surface was not resized since the snapshot was
  taken. \<open>undo\<close> never raises.
\<close>

theorem undo_pops:
  "(length (undoStack s) \<le> 1 \<longrightarrow> undo P s = (Inr False, s))
   \<and> (1 < length (undoStack s) \<longrightarrow>
        (\<exists>s'. undo P s = (Inr True, s')
           \<and> undoStack s' = butlast (undoStack s)
           \<and> redoStack s' = redoStack s @ [last (undoStack s)]
           \<and> canvas s' = putImageData (last (undoStack s')) (canvas s)
           \<and> width (canvas s') = width (canvas s) \<and> height (canvas s') = height (canvas s)
           \<and> (\<forall>x y. pixel_at (canvas s') x y =
                      (if has_pixel (last (undoStack s')) x y \<and> has_pixel (canvas s) x y
                       then pixel_at (last (undoStack s')) x y else pixel_at (canvas s) x y))
           \<and> (same_shape (last (undoStack s')) (canvas s) \<longrightarrow> canvas s' = last (undoStack s'))
           \<and> (wf_image (last (undoStack s')) \<and> wf_image (canvas s)
                \<and> width (last (undoStack s')) = width (canvas s)
                \<and> height (last (undoStack s')) = height (canvas s) \<longrightarrow>
                canvas s' = last (undoStack s'))))
   \<and> (\<forall>err. fst (undo P s) \<noteq> Inl err)
   \<and> undo P (snd (DrawingEngine P w h)) = (Inr False, snd (DrawingEngine P w h))"
proof -
  have fresh: "length (undoStack (snd (DrawingEngine P w h))) \<le> 1"
    by (simp add: DrawingEngine_def saveState_def initializeCanvas_def Let_def
        set_canvas_height_def set_canvas_width_def set_temp_height_def set_temp_width_def
        applyContextSettings_def split: sum.splits)
  have small: "undo P t = (Inr False, t)" if "length (undoStack t) \<le> 1" for t
    using that by (simp add: undo_eq)
  have big: "\<exists>s'. undo P s = (Inr True, s')
           \<and> undoStack s' = butlast (undoStack s)
           \<and> redoStack s' = redoStack s @ [last (undoStack s)]
           \<and> canvas s' = putImageData (last (undoStack s')) (canvas s)
           \<and> width (canvas s') = width (canvas s) \<and> height (canvas s') = height (canvas s)
           \<and> (\<forall>x y. pixel_at (canvas s') x y =
                      (if has_pixel (last (undoStack s')) x y \<and> has_pixel (canvas s) x y
                       then pixel_at (last (undoStack s')) x y else pixel_at (canvas s) x y))
           \<and> (same_shape (last (undoStack s')) (canvas s) \<longrightarrow> canvas s' = last (undoStack s'))
           \<and> (wf_image (last (undoStack s')) \<and> wf_image (canvas s)
                \<and> width (last (undoStack s')) = width (canvas s)
                \<and> height (last (undoStack s')) = height (canvas s) \<longrightarrow>
                canvas s' = last (undoStack s'))"
    if "1 < length (undoStack s)"
  proof -
    let ?top = "last (butlast (undoStack s))"
    define s' where "s' = applyContextSettings P
              (s\<lparr>undoStack := butlast (undoStack s),
                 redoStack := redoStack s @ [last (undoStack s)],
                 canvas := putImageData ?top (canvas s)\<rparr>)"
    have u: "undo P s = (Inr True, s')"
      using that by (simp add: undo_eq s'_def)
    have sel: "undoStack s' = butlast (undoStack s)"
      "redoStack s' = redoStack s @ [last (undoStack s)]"
      "canvas s' = putImageData ?top (canvas s)"
      by (simp_all add: s'_def)
    have px: "pixel_at (canvas s') x y =
                (if has_pixel ?top x y \<and> has_pixel (canvas s) x y
                 then pixel_at ?top x y else pixel_at (canvas s) x y)" for x y
      unfolding sel(3) pixel_at_putImageData by (simp add: has_pixel_def)
    have sh: "same_shape ?top (canvas s) \<longrightarrow> canvas s' = ?top"
      by (simp add: sel(3) putImageData_same)
    have "wf_image ?top \<and> wf_image (canvas s) \<and> width ?top = width (canvas s)
            \<and> height ?top = height (canvas s) \<longrightarrow> canvas s' = ?top"
      using sh wf_same_shape by blast
    with u sel px sh show ?thesis by simp
  qed
  have "fst (undo P s) \<noteq> Inl err" for err
  proof (cases "length (undoStack s) \<le> 1")
    case True
    then show ?thesis by (simp add: small)
  next
    case False
    then have "1 < length (undoStack s)" by simp
    from big [OF this] show ?thesis by auto
  qed
  with small big fresh show ?thesis by blast
qed

theorem undo_pops_witness:
  "length (undoStack (fresh 2 2)) \<le> 1
   \<and> undo test_platform (fresh 2 2) = (Inr False, fresh 2 2)
   \<and> 1 < length (undoStack drawn)
   \<and> fst (undo test_platform drawn) = Inr True
   \<and> undoStack (snd (undo test_platform drawn)) = [canvas (fresh 2 2)]
   \<and> redoStack (snd (undo test_platform drawn)) = [canvas drawn]
   \<and> canvas (snd (undo test_platform drawn)) = canvas (fresh 2 2)
   \<and> canvas drawn \<noteq> canvas (fresh 2 2)"
proof -
  have a: "length (undoStack (fresh 2 2)) \<le> 1"
    by (simp add: fresh_2_2_eval)
  have b: "1 < length (undoStack drawn)"
    by (simp add: drawn_eval)
  have c: "undoStack drawn = [canvas (fresh 2 2), canvas drawn]" "redoStack drawn = []"
    "same_shape (canvas (fresh 2 2)) (canvas drawn)" "canvas drawn \<noteq> canvas (fresh 2 2)"
    by (simp_all add: drawn_eval fresh_2_2_eval same_shape_def)
  from a b undo_pops [of "fresh 2 2" test_platform 2 2] undo_pops [of drawn test_platform 2 2]
  show ?thesis
    by (auto simp: c)
qed

text \<open>
  C3 as stated fails where it says that the surface is restored to the new top of the
  undo stack. A surface of 2 by 2 pixels is resized to 3 by 1 and a stroke is drawn on
  the new third column; \<open>undo\<close> then returns true and writes the 2 by 2 snapshot,
  which does not reach that column: the surface is as it was before the call, stroke
  included, and is not the snapshot.
\<close>

theorem undo_after_resize_counterexample:
  "fst (undo test_platform margin_stroke) = Inr True
   \<and> last (undoStack (snd (undo test_platform margin_stroke))) = filled 2 2 white
   \<and> canvas (snd (undo test_platform margin_stroke)) = canvas margin_stroke
   \<and> canvas (snd (undo test_platform margin_stroke))
       = \<lparr>width = 3, height = 1, rows = [[white, white, RGBA 0 0 0 255]]\<rparr>
   \<and> canvas (snd (undo test_platform margin_stroke)) \<noteq> filled 2 2 white"
  unfolding margin_stroke_eval by code_simp

section \<open>Gestures\<close>

text \<open>
  C9. A Move or End event delivered while no gesture is active returns at once: the
  engine afterwards is the engine before, so no pixel of the surface changes and
  nothing is pushed onto either history stack.
\<close>

theorem idle_guard:
  assumes "\<not> isDrawing s"
  shows "handleMove P e s = (Inr (), s) \<and> handleEnd P e s = (Inr (), s)"
  using assms by (simp add: handleMove_def handleEnd_def)

theorem idle_guard_witness:
  "\<not> isDrawing (fresh 2 2)
   \<and> handleMove test_platform (mouse_event ''mousemove'' 1 1 2 2) (fresh 2 2) = (Inr (), fresh 2 2)
   \<and> handleEnd test_platform (mouse_event ''mouseup'' 1 1 2 2) (fresh 2 2) = (Inr (), fresh 2 2)
   \<and> \<not> isDrawing drawn
   \<and> handleMove test_platform (mouse_event ''mousemove'' 0 1 2 2) drawn = (Inr (), drawn)
   \<and> handleEnd test_platform (mouse_event ''mouseleave'' 0 1 2 2) drawn = (Inr (), drawn)"
proof -
  have a: "\<not> isDrawing (fresh 2 2)" and b: "\<not> isDrawing drawn"
    by (simp_all add: fresh_2_2_eval drawn_eval)
  from idle_guard [OF a] idle_guard [OF b] a b show ?thesis
    by simp
qed

text \<open>
  C10. A Start event that arrives while a gesture is active, and whose coordinates
  are \<open>(x, y)\<close>, is processed like any other: the start and last coordinates become
  \<open>(x, y)\<close>. With the freehand tool a new path is begun at \<open>(x, y)\<close>; with a shape
  tool (on a surface of non-zero size) the scratch buffer is cleared and the current
  surface is drawn into it, so that it equals the surface, previews included; this
  needs the scratch buffer to have the surface's dimensions, as it has in every state
  a constructed engine reaches. Nothing else changes: the surface and both history
  stacks are as before, so the earlier gesture is neither committed nor discarded.
\<close>

theorem handleStart_restarts:
  assumes "isDrawing s" and "getCoordinates P s e = Inr (x, y)"
  shows "(currentTool s = ''freehand'' \<longrightarrow>
            handleStart P e s =
              (Inr (), s\<lparr>startX := x, startY := y, lastX := x, lastY := y,
                         ctx := (ctx s)\<lparr>path := [MoveTo x y]\<rparr>\<rparr>))
       \<and> (currentTool s \<noteq> ''freehand'' \<and> width (canvas s) \<noteq> 0 \<and> height (canvas s) \<noteq> 0 \<longrightarrow>
            (\<exists>t. handleStart P e s =
                   (Inr (), s\<lparr>startX := x, startY := y, lastX := x, lastY := y, tempCanvas := t\<rparr>)
               \<and> drawImage P (canvas s) (clearRect (tempCanvas s)) = Inr t
               \<and> (sized s \<longrightarrow> t = canvas s)))"
proof -
  have c: "getCoordinates P (s\<lparr>isDrawing := True\<rparr>) e = Inr (x, y)"
    using assms(2) by (simp add: getCoordinates_def)
  have d: "s\<lparr>isDrawing := True\<rparr> = s"
    using assms(1) by simp
  have free: "handleStart P e s =
              (Inr (), s\<lparr>startX := x, startY := y, lastX := x, lastY := y,
                         ctx := (ctx s)\<lparr>path := [MoveTo x y]\<rparr>\<rparr>)"
    if "currentTool s = ''freehand''"
    using that c d by (simp add: handleStart_def Let_def beginPath_def add_to_path_def)
  have shape: "\<exists>t. handleStart P e s =
                   (Inr (), s\<lparr>startX := x, startY := y, lastX := x, lastY := y, tempCanvas := t\<rparr>)
               \<and> drawImage P (canvas s) (clearRect (tempCanvas s)) = Inr t
               \<and> (sized s \<longrightarrow> t = canvas s)"
    if t: "currentTool s \<noteq> ''freehand''" and nz: "width (canvas s) \<noteq> 0" "height (canvas s) \<noteq> 0"
  proof -
    from nz obtain t where dr: "drawImage P (canvas s) (clearRect (tempCanvas s)) = Inr t"
      by (auto simp: drawImage_def)
    have "handleStart P e s =
                   (Inr (), s\<lparr>startX := x, startY := y, lastX := x, lastY := y, tempCanvas := t\<rparr>)"
      using t c d dr by (simp add: handleStart_def Let_def)
    moreover have "t = canvas s" if "sized s"
    proof -
      from that have "wf_image (canvas s)" "width (tempCanvas s) = width (canvas s)"
        "height (tempCanvas s) = height (canvas s)"
        by (simp_all add: sized_def)
      from drawImage_over_cleared [OF this(1) nz this(2,3), of P] dr show ?thesis by simp
    qed
    ultimately show ?thesis using dr by blast
  qed
  from free shape show ?thesis by blast
qed

theorem handleStart_restarts_witness:
  "isDrawing previewing
   \<and> getCoordinates test_platform previewing (mouse_event ''mousedown'' 1 0 2 2) = Inr (Fin 1, Fin 0)
   \<and> currentTool previewing = ''line''
   \<and> startX previewing = Fin 0
   \<and> sized previewing
   \<and> canvas previewing \<noteq> tempCanvas previewing
   \<and> handleStart test_platform (mouse_event ''mousedown'' 1 0 2 2) previewing =
       (Inr (), previewing\<lparr>startX := Fin 1, startY := Fin 0, lastX := Fin 1, lastY := Fin 0,
                          tempCanvas := canvas previewing\<rparr>)
   \<and> isDrawing sketching
   \<and> getCoordinates test_platform sketching (mouse_event ''mousedown'' 1 0 2 2) = Inr (Fin 1, Fin 0)
   \<and> currentTool sketching = ''freehand''
   \<and> handleStart test_platform (mouse_event ''mousedown'' 1 0 2 2) sketching =
       (Inr (), sketching\<lparr>startX := Fin 1, startY := Fin 0, lastX := Fin 1, lastY := Fin 0,
                         ctx := (ctx sketching)\<lparr>path := [MoveTo (Fin 1) (Fin 0)]\<rparr>\<rparr>)"
proof -
  have a: "isDrawing previewing"
    by (simp add: previewing_eval)
  have b: "getCoordinates test_platform previewing (mouse_event ''mousedown'' 1 0 2 2) = Inr (Fin 1, Fin 0)"
    by (simp add: previewing_eval getCoordinates_def test_platform_def exact2_def mouse_event_def)
  have c: "currentTool previewing = ''line''" "startX previewing = Fin 0"
    "canvas previewing \<noteq> tempCanvas previewing"
    "width (canvas previewing) = 2" "height (canvas previewing) = 2" "sized previewing"
    by (simp_all add: previewing_eval wf_image_def sized_def)
  have a': "isDrawing sketching"
    by (simp add: sketching_eval)
  have b': "getCoordinates test_platform sketching (mouse_event ''mousedown'' 1 0 2 2) = Inr (Fin 1, Fin 0)"
    by (simp add: sketching_eval getCoordinates_def test_platform_def exact2_def mouse_event_def)
  have c': "currentTool sketching = ''freehand''"
    by (simp add: sketching_eval)
  from handleStart_restarts [OF a b] c
  have "handleStart test_platform (mouse_event ''mousedown'' 1 0 2 2) previewing =
       (Inr (), previewing\<lparr>startX := Fin 1, startY := Fin 0, lastX := Fin 1, lastY := Fin 0,
                          tempCanvas := canvas previewing\<rparr>)"
    by auto
  moreover from handleStart_restarts [OF a' b'] c'
  have "handleStart test_platform (mouse_event ''mousedown'' 1 0 2 2) sketching =
       (Inr (), sketching\<lparr>startX := Fin 1, startY := Fin 0, lastX := Fin 1, lastY := Fin 0,
                         ctx := (ctx sketching)\<lparr>path := [MoveTo (Fin 1) (Fin 0)]\<rparr>\<rparr>)"
    by blast
  ultimately show ?thesis
    using a b c a' b' c' by blast
qed

section \<open>Undo, redo and the bounded history\<close>

text \<open>
  C1. Let a non-empty sequence of committed actions (each a gesture through its End
  event, or \<open>clear()\<close>, each completing its push) be performed from any engine state,
  and let N be its length. Calling \<open>undo()\<close> N times and then \<open>redo()\<close> N times leaves
  the surface buffer exactly as it was immediately after the last action.
\<close>

theorem undo_redo_symmetry:
  assumes "acts \<noteq> []" and "perform_all P acts s = Some s'"
  shows "canvas (redos P (length acts) (undos P (length acts) s')) = canvas s'"
proof -
  from perform_all_last [OF assms] obtain a s1 where "perform P a s1 = Some s'" by blast
  from perform_commits [OF this] obtain s0 where "saveState s0 = (Inr (), s')" by blast
  then show ?thesis by (rule undo_redo_after_save)
qed

theorem undo_redo_symmetry_witness:
  "[stroke_a, stroke_b] \<noteq> []
   \<and> perform_all test_platform [stroke_a, stroke_b] (fresh 2 2) = Some two_strokes
   \<and> canvas (undos test_platform 2 two_strokes) = canvas (fresh 2 2)
   \<and> canvas two_strokes \<noteq> canvas (fresh 2 2)
   \<and> canvas (redos test_platform 2 (undos test_platform 2 two_strokes)) = canvas two_strokes"
proof -
  have p: "perform_all test_platform [stroke_a, stroke_b] (fresh 2 2) = Some two_strokes"
    unfolding two_strokes_eval fresh_2_2_eval stroke_a_def stroke_b_def by code_simp
  have u: "canvas (undos test_platform 2 two_strokes) = canvas (fresh 2 2)"
    unfolding two_strokes_eval fresh_2_2_eval by code_simp
  have d: "canvas two_strokes \<noteq> canvas (fresh 2 2)"
    unfolding two_strokes_eval fresh_2_2_eval by simp
  have n: "[stroke_a, stroke_b] \<noteq> []"
    by simp
  from undo_redo_symmetry [OF n p] have "canvas (redos test_platform 2 (undos test_platform 2 two_strokes)) = canvas two_strokes"
    by (simp add: numeral_2_eq_2)
  with n p u d show ?thesis by simp
qed

text \<open>
  C4. A committed action that pushes onto the undo stack leaves the redo stack empty,
  from whatever state it is performed; so a \<open>redo()\<close> that follows returns false and
  changes nothing. In particular this holds when the action follows one or more calls
  of \<open>undo()\<close>.
\<close>

theorem redo_invalidated:
  "(perform P a s = Some s1 \<longrightarrow> redoStack s1 = [] \<and> redo P s1 = (Inr False, s1))
   \<and> (perform P a (undos P (Suc k) s) = Some s2 \<longrightarrow> redoStack s2 = [] \<and> redo P s2 = (Inr False, s2))"
proof -
  have "redoStack t' = [] \<and> redo P t' = (Inr False, t')" if "perform P a t = Some t'" for t t'
  proof -
    from perform_commits [OF that] obtain s0 where "saveState s0 = (Inr (), t')" by blast
    from saveState_Inr [OF this] have "redoStack t' = []" by simp
    then show ?thesis by (simp add: redo_eq)
  qed
  then show ?thesis by blast
qed

theorem redo_invalidated_witness:
  "redoStack (undos test_platform (Suc 0) drawn) = [canvas drawn]
   \<and> perform test_platform ClearCanvas (undos test_platform (Suc 0) drawn) = Some cleared_after_undo
   \<and> redoStack cleared_after_undo = []
   \<and> redo test_platform cleared_after_undo = (Inr False, cleared_after_undo)"
proof -
  have u: "undos test_platform (Suc 0) drawn = snd (undo test_platform drawn)"
    by simp
  have r: "redoStack (undos test_platform (Suc 0) drawn) = [canvas drawn]"
    unfolding u drawn_eval by code_simp
  have p: "perform test_platform ClearCanvas (undos test_platform (Suc 0) drawn) = Some cleared_after_undo"
    unfolding u cleared_after_undo_eval drawn_eval by code_simp
  from redo_invalidated [of test_platform ClearCanvas "undos test_platform (Suc 0) drawn" cleared_after_undo]
    redo_invalidated [of test_platform ClearCanvas drawn _ 0 cleared_after_undo] p r
  show ?thesis by blast
qed

text \<open>
  C2. Take an engine as the constructor leaves it, which sets the maximum to 50, with
  any maximum \<open>m\<close> of at least one configured on it. After every sequence of calls
  and events the undo stack holds at most \<open>m\<close> snapshots. A committed action
  performed then pushes the surface as it leaves it; when the stack already holds
  \<open>m\<close> snapshots the oldest one is dropped, so the bound is kept.
\<close>

theorem history_bounded:
  assumes "DrawingEngine P ow oh = (Inr (), s0)" and "1 \<le> m"
  shows "maxUndoSteps s0 = 50
       \<and> length (undoStack (run P ops (s0\<lparr>maxUndoSteps := m\<rparr>))) \<le> m
       \<and> maxUndoSteps (run P ops (s0\<lparr>maxUndoSteps := m\<rparr>)) = m
       \<and> (\<forall>s'. perform P a (run P ops (s0\<lparr>maxUndoSteps := m\<rparr>)) = Some s' \<longrightarrow>
             length (undoStack s') \<le> m
             \<and> undoStack s' =
                 (if length (undoStack (run P ops (s0\<lparr>maxUndoSteps := m\<rparr>))) < m
                  then undoStack (run P ops (s0\<lparr>maxUndoSteps := m\<rparr>)) @ [canvas s']
                  else tl (undoStack (run P ops (s0\<lparr>maxUndoSteps := m\<rparr>))) @ [canvas s']))"
proof -
  let ?s = "run P ops (s0\<lparr>maxUndoSteps := m\<rparr>)"
  have "hist_ok (s0\<lparr>maxUndoSteps := m\<rparr>)"
    using DrawingEngine_Inr [OF assms(1)] assms(2) by (simp add: hist_ok_def)
  from hist_ok_run [OF this, of P ops] have ok: "hist_ok ?s" and mx: "maxUndoSteps ?s = m"
    by simp_all
  then have len: "length (undoStack ?s) \<le> m"
    by (simp add: hist_ok_def)
  have push: "length (undoStack s') \<le> m
             \<and> undoStack s' = (if length (undoStack ?s) < m then undoStack ?s @ [canvas s']
                               else tl (undoStack ?s) @ [canvas s'])"
    if "perform P a ?s = Some s'" for s'
  proof -
    from perform_commits [OF that] obtain t where h: "hist t = hist ?s" and sv: "saveState t = (Inr (), s')"
      by blast
    from h mx have t: "undoStack t = undoStack ?s" "maxUndoSteps t = m"
      by (simp_all add: hist_def)
    from saveState_Inr [OF sv] have c: "canvas s' = canvas t"
      and u: "undoStack s' = (if length (undoStack t) < maxUndoSteps t then undoStack t @ [canvas t]
                              else tl (undoStack t @ [canvas t]))"
      by simp_all
    show ?thesis
    proof (cases "length (undoStack ?s) < m")
      case True
      with u t c show ?thesis by simp
    next
      case False
      with len assms(2) have "undoStack ?s \<noteq> []" "length (undoStack ?s) = m" by auto
      with u t c False assms(2) show ?thesis by simp
    qed
  qed
  from DrawingEngine_Inr(3) [OF assms(1)] len mx push show ?thesis by blast
qed

theorem history_bounded_witness:
  "DrawingEngine test_platform 1 1 = (Inr (), fresh 1 1)
   \<and> (1 :: nat) \<le> 50
   \<and> length (undoStack (run test_platform (replicate 60 Clear) (fresh 1 1))) \<le> 50
   \<and> (1 :: nat) \<le> 2
   \<and> undoStack (run test_platform [Resize 2 1, Clear] ((fresh 1 1)\<lparr>maxUndoSteps := 2\<rparr>))
       = [filled 1 1 white, filled 2 1 white]
   \<and> perform test_platform stroke_a (run test_platform [Resize 2 1, Clear] ((fresh 1 1)\<lparr>maxUndoSteps := 2\<rparr>))
       = Some (run test_platform
                 [Resize 2 1, Clear, Start (mouse_event ''mousedown'' 0 0 2 2),
                  Move (mouse_event ''mousemove'' 1 1 2 2), End (mouse_event ''mouseup'' 1 1 2 2)]
                 ((fresh 1 1)\<lparr>maxUndoSteps := 2\<rparr>))
   \<and> undoStack (run test_platform
                 [Resize 2 1, Clear, Start (mouse_event ''mousedown'' 0 0 2 2),
                  Move (mouse_event ''mousemove'' 1 1 2 2), End (mouse_event ''mouseup'' 1 1 2 2)]
                 ((fresh 1 1)\<lparr>maxUndoSteps := 2\<rparr>))
       = [filled 2 1 white, \<lparr>width = 2, height = 1, rows = [[RGBA 0 0 0 255, white]]\<rparr>]"
proof -
  have c: "DrawingEngine test_platform 1 1 = (Inr (), fresh 1 1)"
    by (rule fresh_1_1_constructed)
  have m: "(fresh 1 1)\<lparr>maxUndoSteps := 50\<rparr> = fresh 1 1"
    unfolding fresh_1_1_eval by simp
  let ?s = "run test_platform [Resize 2 1, Clear] ((fresh 1 1)\<lparr>maxUndoSteps := 2\<rparr>)"
  let ?t = "run test_platform
                 [Resize 2 1, Clear, Start (mouse_event ''mousedown'' 0 0 2 2),
                  Move (mouse_event ''mousemove'' 1 1 2 2), End (mouse_event ''mouseup'' 1 1 2 2)]
                 ((fresh 1 1)\<lparr>maxUndoSteps := 2\<rparr>)"
  have u: "undoStack ?s = [filled 1 1 white, filled 2 1 white]"
    unfolding fresh_1_1_eval by code_simp
  have p: "perform test_platform stroke_a ?s = Some ?t"
    unfolding fresh_1_1_eval stroke_a_def by code_simp
  have k: "canvas ?t = \<lparr>width = 2, height = 1, rows = [[RGBA 0 0 0 255, white]]\<rparr>"
    unfolding fresh_1_1_eval by code_simp
  have le: "(1 :: nat) \<le> 50" "(1 :: nat) \<le> 2"
    by simp_all
  have a: "length (undoStack (run test_platform (replicate 60 Clear) (fresh 1 1))) \<le> 50"
    using history_bounded [OF c le(1), where ops = "replicate 60 Clear" and a = ClearCanvas, unfolded m]
    by blast
  from history_bounded [OF c le(2), where ops = "[Resize 2 1, Clear]" and a = stroke_a] p
  have "undoStack ?t = (if length (undoStack ?s) < 2 then undoStack ?s @ [canvas ?t]
                        else tl (undoStack ?s) @ [canvas ?t])"
    by blast
  then have b: "undoStack ?t = [filled 2 1 white, \<lparr>width = 2, height = 1, rows = [[RGBA 0 0 0 255, white]]\<rparr>]"
    unfolding u k by simp
  from c a b u p le show ?thesis by blast
qed

text \<open>
  C8, as the code has it. On a constructed engine the undo stack holds the snapshot of
  the blank (white) canvas. After every sequence of calls and events without
  \<open>destroy()\<close> the undo stack is not empty, and its bottom entry is still that first
  snapshot as long as fewer than 50 of them committed, that is, were a \<open>clear()\<close> or an
  End event of an active gesture that pushed its snapshot. \<open>destroy()\<close> empties the
  stack.
\<close>

theorem undo_stack_rooted:
  assumes "DrawingEngine P ow oh = (Inr (), s0)" and "Destroy \<notin> set ops"
  shows "undoStack s0 = [filled ow oh white]
       \<and> undoStack (run P ops s0) \<noteq> []
       \<and> (commits P ops s0 < 50 \<longrightarrow> hd (undoStack (run P ops s0)) = filled ow oh white)
       \<and> undoStack (destroy (run P ops s0)) = []"
proof -
  have "rooted (filled ow oh white) 0 s0"
    using DrawingEngine_Inr [OF assms(1)] by (simp add: rooted_def)
  from rooted_run [OF this assms(2), of P] DrawingEngine_Inr(1) [OF assms(1)]
  show ?thesis by (simp add: rooted_def destroy_def)
qed

theorem undo_stack_rooted_witness:
  "DrawingEngine test_platform 2 2 = (Inr (), fresh 2 2)
   \<and> Destroy \<notin> set [Start (mouse_event ''mousedown'' 0 0 2 2), Move (mouse_event ''mousemove'' 1 1 2 2),
                      End (mouse_event ''mouseup'' 1 1 2 2), End (mouse_event ''mouseleave'' 1 1 2 2),
                      Undo, Redo, Clear, Undo, Undo, Undo]
   \<and> commits test_platform
         [Start (mouse_event ''mousedown'' 0 0 2 2), Move (mouse_event ''mousemove'' 1 1 2 2),
          End (mouse_event ''mouseup'' 1 1 2 2), End (mouse_event ''mouseleave'' 1 1 2 2),
          Undo, Redo, Clear, Undo, Undo, Undo]
         (fresh 2 2) = 2
   \<and> undoStack (run test_platform
                   [Start (mouse_event ''mousedown'' 0 0 2 2), Move (mouse_event ''mousemove'' 1 1 2 2),
                    End (mouse_event ''mouseup'' 1 1 2 2), End (mouse_event ''mouseleave'' 1 1 2 2),
                    Undo, Redo, Clear, Undo, Undo, Undo]
                   (fresh 2 2)) \<noteq> []
   \<and> hd (undoStack (run test_platform
                   [Start (mouse_event ''mousedown'' 0 0 2 2), Move (mouse_event ''mousemove'' 1 1 2 2),
                    End (mouse_event ''mouseup'' 1 1 2 2), End (mouse_event ''mouseleave'' 1 1 2 2),
                    Undo, Redo, Clear, Undo, Undo, Undo]
                   (fresh 2 2))) = filled 2 2 white"
proof -
  let ?ops = "[Start (mouse_event ''mousedown'' 0 0 2 2), Move (mouse_event ''mousemove'' 1 1 2 2),
                    End (mouse_event ''mouseup'' 1 1 2 2), End (mouse_event ''mouseleave'' 1 1 2 2),
                    Undo, Redo, Clear, Undo, Undo, Undo]"
  have d: "Destroy \<notin> set ?ops"
    by simp
  have n: "commits test_platform ?ops (fresh 2 2) = 2"
    unfolding fresh_2_2_eval by code_simp
  from undo_stack_rooted [OF fresh_2_2_constructed d] n d fresh_2_2_constructed
  show ?thesis by simp
qed

text \<open>
  C8 as stated fails once the history is full: after one stroke and 49 calls of
  \<open>clear()\<close> the first snapshot has been evicted, and the bottom of the undo stack is
  the snapshot of the stroke, not the blank canvas.
\<close>

theorem undo_stack_bottom_counterexample:
  "undoStack (fresh 2 2) = [filled 2 2 white]
   \<and> hd (undoStack (run test_platform
          ([Start (mouse_event ''mousedown'' 0 0 2 2), Move (mouse_event ''mousemove'' 1 1 2 2),
            End (mouse_event ''mouseup'' 1 1 2 2)] @ replicate 49 Clear)
          (fresh 2 2)))
       = \<lparr>width = 2, height = 2, rows = [[RGBA 0 0 0 255, white], [white, RGBA 0 0 0 255]]\<rparr>
   \<and> \<lparr>width = 2, height = 2, rows = [[RGBA 0 0 0 255, white], [white, RGBA 0 0 0 255]]\<rparr>
       \<noteq> filled 2 2 white"
  unfolding fresh_2_2_eval by code_simp

end
